theory Spec2Isabelle
  imports Complex_Main
begin

section \<open>Configuration constants\<close>

text \<open>
  Strings are byte lists; the two Persian constants of \<^verbatim>\<open>config/constants.ts\<close> are
  written as their UTF-8 bytes.
\<close>

definition RATE_LIMIT_DELAY :: nat where
  "RATE_LIMIT_DELAY = 1000"

definition BATCH_SIZE :: nat where
  "BATCH_SIZE = 10"

definition PROMPT_PERSIAN :: string where
  "PROMPT_PERSIAN = map char_of
     [217, 132, 216, 183, 217, 129, 216, 167, 217, 139, 32, 217, 133, 216, 170, 217, 134, 32,
      216, 178, 219, 140, 216, 177, 32, 216, 177, 216, 167, 32, 216, 168, 217, 135, 32, 217,
      129, 216, 167, 216, 177, 216, 179, 219, 140, 32, 216, 170, 216, 177, 216, 172, 217, 133,
      217, 135, 32, 218, 169, 217, 134, 219, 140, 216, 175, 216, 140, 32, 216, 179, 216, 167,
      216, 174, 216, 170, 216, 167, 216, 177, 32, 216, 172, 217, 133, 217, 132, 217, 135, 32,
      40, 217, 133, 216, 167, 217, 134, 217, 134, 216, 175, 32, 216, 174, 216, 183, 217, 136,
      216, 183, 32, 216, 172, 216, 175, 219, 140, 216, 175, 41, 32, 216, 177, 216, 167, 32,
      216, 173, 217, 129, 216, 184, 32, 218, 169, 216, 177, 216, 175, 217, 135, 32, 217, 136,
      32, 217, 135, 217, 133, 216, 167, 217, 134, 217, 134, 216, 175, 32, 216, 168, 218, 169,
      32, 216, 167, 217, 134, 216, 179, 216, 167, 217, 134, 32, 217, 133, 216, 170, 217, 134,
      32, 216, 177, 217, 136, 32, 217, 133, 216, 177, 216, 170, 216, 168, 32, 218, 169, 216,
      177, 216, 175, 217, 135, 32, 217, 136, 32, 217, 129, 217, 130, 216, 183, 32, 216, 174,
      216, 177, 217, 136, 216, 172, 219, 140, 32, 216, 177, 216, 167, 32, 217, 134, 217, 133,
      216, 167, 219, 140, 216, 180, 32, 216, 175, 217, 135, 219, 140, 216, 175, 58 :: nat]"

definition DEBUG_TRANSLATED_PERSIAN :: string where
  "DEBUG_TRANSLATED_PERSIAN = map char_of
     [216, 167, 219, 140, 217, 134, 32, 219, 140, 218, 169, 32, 216, 170, 216, 177, 216, 172,
      217, 133, 217, 135, 32, 216, 162, 216, 178, 217, 133, 216, 167, 219, 140, 216, 180, 219,
      140, 32, 216, 168, 217, 135, 32, 217, 129, 216, 167, 216, 177, 216, 179, 219, 140, 32,
      216, 167, 216, 179, 216, 170, 46 :: nat]"

section \<open>Data model\<close>

record TranslatedData =
  original :: string
  translated :: string

text \<open>
  What the component makes observable, in the order it happens: a request sent to the
  endpoint (with the text of its body), a \<^verbatim>\<open>delay(ms)\<close>, a call of
  \<^verbatim>\<open>setProgress\<close>, a call of \<^verbatim>\<open>setData\<close>, and a file handed to the
  spreadsheet library's \<^verbatim>\<open>writeFile\<close>.
\<close>

record worksheet =
  cells :: "string list list"
  cols :: "nat list"

type_synonym workbook = "(string \<times> worksheet) list"

datatype event =
    Post string
  | Delay nat
  | SetProgress real
  | SetData "TranslatedData list"
  | WriteFile workbook string

text \<open>
  The component's React state (the five \<^verbatim>\<open>useState\<close> cells), the number of requests
  sent so far and the trace of events.
\<close>

record component =
  loading :: bool
  data :: "TranslatedData list"
  error :: string
  originalFileName :: string
  progress :: real
  sent :: nat
  events :: "event list"

definition setLoading :: "bool \<Rightarrow> component \<Rightarrow> component" where
  "setLoading b w = w\<lparr>loading := b\<rparr>"

definition setData :: "TranslatedData list \<Rightarrow> component \<Rightarrow> component" where
  "setData d w = w\<lparr>data := d, events := events w @ [SetData d]\<rparr>"

definition setError :: "string \<Rightarrow> component \<Rightarrow> component" where
  "setError m w = w\<lparr>error := m\<rparr>"

definition setOriginalFileName :: "string \<Rightarrow> component \<Rightarrow> component" where
  "setOriginalFileName n w = w\<lparr>originalFileName := n\<rparr>"

definition setProgress :: "real \<Rightarrow> component \<Rightarrow> component" where
  "setProgress p w = w\<lparr>progress := p, events := events w @ [SetProgress p]\<rparr>"

definition delay :: "nat \<Rightarrow> component \<Rightarrow> component" where
  "delay ms w = w\<lparr>events := events w @ [Delay ms]\<rparr>"

section \<open>Strings\<close>

text \<open>\<^verbatim>\<open>String.prototype.includes\<close>: the pattern occurs somewhere in the string.\<close>

fun str_includes :: "string \<Rightarrow> string \<Rightarrow> bool" where
  "str_includes [] p = (p = [])"
| "str_includes (c # cs) p = (take (length p) (c # cs) = p \<or> str_includes cs p)"

section \<open>Double-precision arithmetic\<close>

text \<open>
  The numbers of the source are IEEE 754 doubles and \<^verbatim>\<open>/\<close> and \<^verbatim>\<open>*\<close> round their
  exact result to the nearest double, ties to the even significand. A double is a real
  number here; \<open>double_round\<close> rounds a real to 53 significant bits, with no bound on the
  exponent (no overflow and no subnormal numbers, neither of which the progress of a list
  that fits in memory can reach). Natural numbers below \<open>2 ^ 53\<close> are doubles as they are.
\<close>

text \<open>Rounding to the nearest integer, ties to even.\<close>

definition rne :: "real \<Rightarrow> int" where
  "rne r =
     (let f = \<lfloor>r\<rfloor>; d = r - of_int f
      in if d < 1 / 2 then f else if 1 / 2 < d then f + 1 else if even f then f else f + 1)"

text \<open>The binary exponent of a positive number: \<open>2 ^ expo x \<le> x < 2 ^ (expo x + 1)\<close>.\<close>

function expo :: "real \<Rightarrow> int" where
  "expo x =
     (if x \<le> 0 then 0
      else if x < 1 then expo (2 * x) - 1
      else if 2 \<le> x then expo (x / 2) + 1
      else 0)"
  by pat_completeness auto
termination
proof (relation "measure (\<lambda>x. if x \<le> 0 then 0 else if x < 1 then nat \<lceil>- log 2 x\<rceil> else nat \<lfloor>log 2 x\<rfloor>)")
  show "wf (measure (\<lambda>x. if x \<le> 0 then 0 else if x < 1 then nat \<lceil>- log 2 x\<rceil> else nat \<lfloor>log 2 x\<rfloor>))"
    by simp
next
  fix x :: real
  assume a: "\<not> x \<le> 0" "x < 1"
  then have l: "log 2 x < 0" by simp
  have l2: "log 2 (2 * x) = 1 + log 2 x" using a by (simp add: log_mult)
  show "(2 * x, x) \<in> measure (\<lambda>x. if x \<le> 0 then 0 else if x < 1 then nat \<lceil>- log 2 x\<rceil> else nat \<lfloor>log 2 x\<rfloor>)"
  proof (cases "2 * x < 1")
    case True
    have "- log 2 (2 * x) = - log 2 x - 1" using l2 by simp
    then have "\<lceil>- log 2 (2 * x)\<rceil> = \<lceil>- log 2 x\<rceil> - 1" by (simp only: ceiling_diff_one)
    moreover have "0 < \<lceil>- log 2 x\<rceil>" using l by simp
    ultimately show ?thesis using a True by simp
  next
    case False
    then have "1 \<le> 2 * x" "2 * x < 2" using a by simp_all
    then have "0 \<le> log 2 (2 * x)" "log 2 (2 * x) < 1" by (simp_all add: log_less_iff)
    then have "\<lfloor>log 2 (2 * x)\<rfloor> = 0" by linarith
    moreover have "0 < \<lceil>- log 2 x\<rceil>" using l by simp
    ultimately show ?thesis using a False by simp
  qed
next
  fix x :: real
  assume a: "\<not> x \<le> 0" "\<not> x < 1" "2 \<le> x"
  then have l: "1 \<le> log 2 x" by (simp add: le_log_iff)
  have l2: "log 2 (x / 2) = log 2 x - 1" using a by (simp add: log_divide)
  have "\<lfloor>log 2 (x / 2)\<rfloor> = \<lfloor>log 2 x\<rfloor> - 1" unfolding l2 by simp
  moreover have "1 \<le> \<lfloor>log 2 x\<rfloor>" using l by linarith
  ultimately show "(x / 2, x) \<in> measure (\<lambda>x. if x \<le> 0 then 0 else if x < 1 then nat \<lceil>- log 2 x\<rceil> else nat \<lfloor>log 2 x\<rfloor>)"
    using a by simp
qed

declare expo.simps [simp del]

definition round_pos :: "real \<Rightarrow> real" where
  "round_pos x = of_int (rne (x * power_int 2 (52 - expo x))) * power_int 2 (expo x - 52)"

definition double_round :: "real \<Rightarrow> real" where
  "double_round x = (if 0 < x then round_pos x else if x < 0 then - round_pos (- x) else 0)"

definition double_div :: "real \<Rightarrow> real \<Rightarrow> real" where
  "double_div a b = double_round (a / b)"

definition double_mul :: "real \<Rightarrow> real \<Rightarrow> real" where
  "double_mul a b = double_round (a * b)"

section \<open>The translation client\<close>

text \<open>
  What \<^verbatim>\<open>axios.post\<close> can do. It resolves with a response, of which the code reads
  \<^verbatim>\<open>data.candidates?.[0]?.content?.parts?.[0]?.text\<close> only (\<open>None\<close> when the chain
  is undefined); or it rejects, with an axios error (its optional \<^verbatim>\<open>response\<close>, of
  which the code reads \<^verbatim>\<open>status\<close> and \<^verbatim>\<open>data?.error?.message\<close>, and its own
  \<^verbatim>\<open>message\<close>) or with any other exception.

  The body of a response is JSON of any shape, so \<^verbatim>\<open>data?.error?.message\<close> is given by
  what the code can observe of it: nothing (\<^verbatim>\<open>undefined\<close> or \<^verbatim>\<open>null\<close>); a string;
  an array, of which \<^verbatim>\<open>includes('quota')\<close> tells whether an element is that string and
  which converts to a string when it becomes the message of an \<^verbatim>\<open>Error\<close>; or any other
  value (a number, a boolean, an object), which has no \<^verbatim>\<open>includes\<close> method, so that
  calling it throws a \<^verbatim>\<open>TypeError\<close>, whose message the engine chooses.
\<close>

datatype message_value =
    NoMessage
  | TextMessage string
  | ArrayMessage bool string
  | OtherMessage string

record http_response =
  status :: nat
  error_message :: message_value

datatype js_error =
    AxiosError "http_response option" string
  | OtherError string

datatype post_outcome =
    Resolved "string option"
  | Rejected js_error

text \<open>
  The remote endpoint: the outcome of the request numbered \<open>n\<close> (counting from the
  first request the component ever sent) with the given body text. The URL and the API key
  are part of what this function stands for.
\<close>

type_synonym network = "nat \<Rightarrow> string \<Rightarrow> post_outcome"

definition QUOTA_MESSAGE :: string where
  "QUOTA_MESSAGE = ''API quota exceeded. Please try again later or use a different API key.''"

definition INVALID_KEY_MESSAGE :: string where
  "INVALID_KEY_MESSAGE = ''Invalid API key. Please check your Gemini API key.''"

definition UNEXPECTED_MESSAGE :: string where
  "UNEXPECTED_MESSAGE = ''An unexpected error occurred during translation''"

definition request_text :: "string \<Rightarrow> string" where
  "request_text text = PROMPT_PERSIAN @ CHR 0x0A # text"

text \<open>The \<^verbatim>\<open>try\<close> block of \<^verbatim>\<open>translateText\<close>: a truthy text is returned, anything
  else throws inside the block.\<close>

definition translateText_try :: "post_outcome \<Rightarrow> js_error + string" where
  "translateText_try out =
     (case out of
        Resolved t \<Rightarrow>
          (case t of
             Some s \<Rightarrow> if s \<noteq> [] then Inr s else Inl (OtherError ''Invalid response format from API'')
           | None \<Rightarrow> Inl (OtherError ''Invalid response format from API''))
      | Rejected e \<Rightarrow> Inl e)"

definition response_status_is :: "http_response option \<Rightarrow> nat \<Rightarrow> bool" where
  "response_status_is r n = (case r of None \<Rightarrow> False | Some resp \<Rightarrow> status resp = n)"

definition response_message :: "http_response option \<Rightarrow> message_value" where
  "response_message r = (case r of None \<Rightarrow> NoMessage | Some resp \<Rightarrow> error_message resp)"

text \<open>\<^verbatim>\<open>message?.includes('quota')\<close>: a truth value, or (\<open>Inl\<close>) the message of the
  \<^verbatim>\<open>TypeError\<close> thrown.\<close>

definition includes_quota :: "message_value \<Rightarrow> string + bool" where
  "includes_quota v =
     (case v of
        NoMessage \<Rightarrow> Inr False
      | TextMessage sm \<Rightarrow> Inr (str_includes sm ''quota'')
      | ArrayMessage has_quota joined \<Rightarrow> Inr has_quota
      | OtherMessage type_error \<Rightarrow> Inl type_error)"

text \<open>\<^verbatim>\<open>new Error(message || error.message)\<close>, by its message. The last case is not
  reached: for such a value \<^verbatim>\<open>includes\<close> has thrown before, unless the status is 429,
  which takes the first branch.\<close>

definition message_or :: "message_value \<Rightarrow> string \<Rightarrow> string" where
  "message_or v m =
     (case v of
        NoMessage \<Rightarrow> m
      | TextMessage sm \<Rightarrow> if sm \<noteq> [] then sm else m
      | ArrayMessage has_quota joined \<Rightarrow> joined
      | OtherMessage type_error \<Rightarrow> m)"

text \<open>The \<^verbatim>\<open>catch\<close> block of \<^verbatim>\<open>translateText\<close>: every path throws an
  \<^verbatim>\<open>Error\<close>, given here by its message. The test for status 429 comes first and
  \<^verbatim>\<open>||\<close> does not evaluate its right side when it holds.\<close>

definition translateText_catch :: "js_error \<Rightarrow> string" where
  "translateText_catch e =
     (case e of
        AxiosError r m \<Rightarrow>
          if response_status_is r 429 then QUOTA_MESSAGE
          else (case includes_quota (response_message r) of
                  Inl type_error \<Rightarrow> type_error
                | Inr has_quota \<Rightarrow>
                    if has_quota then QUOTA_MESSAGE
                    else if response_status_is r 401 then INVALID_KEY_MESSAGE
                    else message_or (response_message r) m)
      | OtherError _ \<Rightarrow> UNEXPECTED_MESSAGE)"

definition translateText_result :: "post_outcome \<Rightarrow> string + string" where
  "translateText_result out =
     (case translateText_try out of
        Inr s \<Rightarrow> Inr s
      | Inl e \<Rightarrow> Inl (translateText_catch e))"

definition translateText :: "network \<Rightarrow> string \<Rightarrow> component \<Rightarrow> (string + string) \<times> component" where
  "translateText net text w =
     (let body = request_text text;
          out = net (sent w) body;
          w' = w\<lparr>sent := Suc (sent w), events := events w @ [Post body]\<rparr>
      in (translateText_result out, w'))"

section \<open>The batch processor\<close>

text \<open>The \<^verbatim>\<open>for ... of\<close> loop of \<^verbatim>\<open>translateBatch\<close>, with \<^verbatim>\<open>results\<close> as
  accumulator; \<open>Inl\<close> is the rethrown error.\<close>

fun translateBatch_loop ::
  "network \<Rightarrow> string list \<Rightarrow> string list \<Rightarrow> component \<Rightarrow> (string + string list) \<times> component" where
  "translateBatch_loop net [] results w = (Inr results, w)"
| "translateBatch_loop net (text # rest) results w =
     (case translateText net text w of
        (Inr translated_text, w1) \<Rightarrow>
          translateBatch_loop net rest (results @ [translated_text]) (delay RATE_LIMIT_DELAY w1)
      | (Inl msg, w1) \<Rightarrow>
          if str_includes msg ''quota'' then (Inl msg, w1)
          else translateBatch_loop net rest (results @ [DEBUG_TRANSLATED_PERSIAN]) w1)"

definition translateBatch ::
  "network \<Rightarrow> string list \<Rightarrow> component \<Rightarrow> (string + string list) \<times> component" where
  "translateBatch net texts w = translateBatch_loop net texts [] w"

text \<open>\<^verbatim>\<open>xs.slice(a, b)\<close> for \<open>0 \<le> a \<le> b\<close>.\<close>

definition slice :: "'a list \<Rightarrow> nat \<Rightarrow> nat \<Rightarrow> 'a list" where
  "slice xs a b = take (b - a) (drop a xs)"

text \<open>The \<^verbatim>\<open>forEach\<close> of \<^verbatim>\<open>handleFileUpload\<close>: one pair per translated string, its
  original read from the batch at the same index.\<close>

definition push_pairs :: "string list \<Rightarrow> string list \<Rightarrow> TranslatedData list \<Rightarrow> TranslatedData list" where
  "push_pairs batch translatedBatch translatedData =
     translatedData @
       map (\<lambda>(index, t). \<lparr>original = batch ! index, translated = t\<rparr>) (enumerate 0 translatedBatch)"

text \<open>The \<^verbatim>\<open>for\<close> loop of \<^verbatim>\<open>handleFileUpload\<close> over the batches, from index \<open>i\<close>;
  it returns \<^verbatim>\<open>translatedData\<close> and the component.\<close>

function upload_loop ::
  "network \<Rightarrow> string list \<Rightarrow> nat \<Rightarrow> TranslatedData list \<Rightarrow> component \<Rightarrow> TranslatedData list \<times> component" where
  "upload_loop net textsToTranslate i translatedData w =
     (if i < length textsToTranslate then
        (let batch = slice textsToTranslate i (i + BATCH_SIZE) in
         case translateBatch net batch w of
           (Inr translatedBatch, w1) \<Rightarrow>
             (let translatedData' = push_pairs batch translatedBatch translatedData;
                  p = min (double_mul (double_div (real (i + BATCH_SIZE)) (real (length textsToTranslate))) 100) 100
              in upload_loop net textsToTranslate (i + BATCH_SIZE) translatedData'
                   (setData translatedData' (setProgress p w1)))
         | (Inl msg, w1) \<Rightarrow>
             if str_includes msg ''quota'' then (translatedData, setError msg w1)
             else upload_loop net textsToTranslate (i + BATCH_SIZE) translatedData w1)
      else (translatedData, w))"
  by pat_completeness auto
termination
  by (relation "measure (\<lambda>(net, ts, i, td, w). length ts - i)") (auto simp: BATCH_SIZE_def)

section \<open>Reading the uploaded file\<close>

text \<open>
  The spreadsheet library is not part of the repository: an uploaded file is its name and
  what \<^verbatim>\<open>read\<close> and \<^verbatim>\<open>sheet_to_json(..., {header: 1})\<close> make of its first sheet,
  a list of rows of cells (\<open>None\<close> for a hole), or \<open>None\<close> when reading throws.
\<close>

type_synonym row = "string option list"

record uploaded_file =
  file_name :: string
  sheet_rows :: "row list option"

definition row0 :: "row \<Rightarrow> string option" where
  "row0 r = (case r of [] \<Rightarrow> None | c # _ \<Rightarrow> c)"

definition truthy :: "string option \<Rightarrow> bool" where
  "truthy c = (case c of None \<Rightarrow> False | Some s \<Rightarrow> s \<noteq> [])"

definition cell_text :: "string option \<Rightarrow> string" where
  "cell_text c = (case c of None \<Rightarrow> [] | Some s \<Rightarrow> s)"

definition textsToTranslate_of :: "row list \<Rightarrow> string list" where
  "textsToTranslate_of jsonData =
     map (\<lambda>r. cell_text (row0 r)) (filter (\<lambda>r. truthy (row0 r)) jsonData)"

definition PROCESSING_ERROR_MESSAGE :: string where
  "PROCESSING_ERROR_MESSAGE = ''Error processing file. Please make sure it is a valid Excel file.''"

definition handleFileUpload :: "network \<Rightarrow> uploaded_file option \<Rightarrow> component \<Rightarrow> component" where
  "handleFileUpload net file_opt w =
     (case file_opt of
        None \<Rightarrow> w
      | Some file \<Rightarrow>
          (let w1 = setData [] (setProgress 0 (setError [] (setLoading True w)));
               w2 = setOriginalFileName (file_name file) w1;
               w3 = (case sheet_rows file of
                       None \<Rightarrow> setError PROCESSING_ERROR_MESSAGE w2
                     | Some jsonData \<Rightarrow>
                         (let textsToTranslate = textsToTranslate_of jsonData;
                              (translatedData, w') = upload_loop net textsToTranslate 0 [] w2
                          in if length translatedData > 0 then setData translatedData w' else w'))
           in setProgress 100 (setLoading False w3)))"

section \<open>Export\<close>

text \<open>
  \<^verbatim>\<open>utils.json_to_sheet(objects, {skipHeader: true})\<close> on objects with the keys
  \<^verbatim>\<open>Original\<close> and \<^verbatim>\<open>Translated\<close>: one row of two cells per object, no row for
  the keys.
\<close>

definition json_to_sheet :: "(string \<times> string) list \<Rightarrow> worksheet" where
  "json_to_sheet objs = \<lparr>cells = map (\<lambda>(a, b). [a, b]) objs, cols = []\<rparr>"

definition EXPORT_ERROR_MESSAGE :: string where
  "EXPORT_ERROR_MESSAGE = ''Error exporting file. Please try again.''"

definition export_workbook :: "component \<Rightarrow> workbook" where
  "export_workbook w =
     (let ws = json_to_sheet
                 ((''Original Text'', ''Persian Translation'') #
                  map (\<lambda>r. (original r, translated r)) (data w));
          ws' = ws\<lparr>cols := [30, 30]\<rparr>
      in [(''Translations'', ws')])"

definition exportFileName_of :: "component \<Rightarrow> string" where
  "exportFileName_of w =
     (if originalFileName w \<noteq> [] then ''translated_'' @ originalFileName w
      else ''translated_document.xlsx'')"

text \<open>\<open>writes\<close> tells whether the library calls of the \<^verbatim>\<open>try\<close> block, the last of
  them \<^verbatim>\<open>writeFile\<close>, return (\<open>True\<close>) or throw.\<close>

definition handleExport :: "(workbook \<Rightarrow> string \<Rightarrow> bool) \<Rightarrow> component \<Rightarrow> component" where
  "handleExport writes w =
     (let wb = export_workbook w;
          exportFileName = exportFileName_of w
      in if writes wb exportFileName
         then w\<lparr>events := events w @ [WriteFile wb exportFileName]\<rparr>
         else setError EXPORT_ERROR_MESSAGE w)"

section \<open>Observations the properties are stated with\<close>

fun progress_values :: "event list \<Rightarrow> real list" where
  "progress_values [] = []"
| "progress_values (SetProgress p # es) = p # progress_values es"
| "progress_values (_ # es) = progress_values es"

fun data_values :: "event list \<Rightarrow> TranslatedData list list" where
  "data_values [] = []"
| "data_values (SetData d # es) = d # data_values es"
| "data_values (_ # es) = data_values es"

fun posts :: "event list \<Rightarrow> string list" where
  "posts [] = []"
| "posts (Post b # es) = b # posts es"
| "posts (_ # es) = posts es"

text \<open>The progress values and the pair sequences emitted between two states of one trace.\<close>

definition new_progress :: "component \<Rightarrow> component \<Rightarrow> real list" where
  "new_progress w w' = drop (length (progress_values (events w))) (progress_values (events w'))"

definition new_data :: "component \<Rightarrow> component \<Rightarrow> TranslatedData list list" where
  "new_data w w' = drop (length (data_values (events w))) (data_values (events w'))"

text \<open>The header row of the first sheet of a written workbook.\<close>

definition header_row :: "event \<Rightarrow> string list" where
  "header_row e =
     (case e of
        WriteFile wb n \<Rightarrow>
          (case wb of
             [] \<Rightarrow> []
           | (sheet_name, ws) # _ \<Rightarrow> (case cells ws of [] \<Rightarrow> [] | h # _ \<Rightarrow> h))
      | _ \<Rightarrow> [])"

text \<open>A failed translation stops the run when its message includes \<^verbatim>\<open>quota\<close>: the test
  of both \<^verbatim>\<open>catch\<close> blocks.\<close>

definition is_quota :: "string + string \<Rightarrow> bool" where
  "is_quota r = (case r of Inl msg \<Rightarrow> str_includes msg ''quota'' | Inr _ \<Rightarrow> False)"

definition failure_message :: "string + string \<Rightarrow> string" where
  "failure_message r = (case r of Inl msg \<Rightarrow> msg | Inr _ \<Rightarrow> [])"

text \<open>What \<^verbatim>\<open>translateText\<close> returns or throws for item \<open>j\<close> of the input, when the
  run starts with \<open>s\<close> requests already sent and sends one request per item.\<close>

definition item_result :: "network \<Rightarrow> nat \<Rightarrow> string list \<Rightarrow> nat \<Rightarrow> string + string" where
  "item_result net s texts j = translateText_result (net (s + j) (request_text (texts ! j)))"

definition item_translation :: "string + string \<Rightarrow> string" where
  "item_translation r = (case r of Inr t \<Rightarrow> t | Inl _ \<Rightarrow> DEBUG_TRANSLATED_PERSIAN)"

text \<open>One pair per source string, in input order: the translation, or the placeholder where
  the translation failed.\<close>

definition expected_pairs :: "network \<Rightarrow> nat \<Rightarrow> string list \<Rightarrow> TranslatedData list" where
  "expected_pairs net s texts =
     map (\<lambda>j. \<lparr>original = texts ! j, translated = item_translation (item_result net s texts j)\<rparr>)
       [0..<length texts]"

text \<open>The state in which \<^verbatim>\<open>handleFileUpload\<close> reads the file: after the four resets
  and \<^verbatim>\<open>setOriginalFileName\<close>.\<close>

definition run_start :: "uploaded_file \<Rightarrow> component \<Rightarrow> component" where
  "run_start file w =
     setOriginalFileName (file_name file)
       (setData [] (setProgress 0 (setError [] (setLoading True w))))"

text \<open>
  The number of batches (\<^verbatim>\<open>totalBatches\<close> in the source), the number of items attempted
  when batch \<open>c\<close> (counted from 0) is completed, and the progress that goes with it: the
  fraction of items attempted, as a percentage capped at 100, in double-precision
  arithmetic.
\<close>

definition batch_count :: "nat \<Rightarrow> nat" where
  "batch_count n = (n + BATCH_SIZE - 1) div BATCH_SIZE"

definition attempted :: "nat \<Rightarrow> nat \<Rightarrow> nat" where
  "attempted n c = min (BATCH_SIZE * Suc c) n"

definition batch_progress :: "nat \<Rightarrow> nat \<Rightarrow> real" where
  "batch_progress n c = min (double_mul (double_div (real (attempted n c)) (real n)) 100) 100"

section \<open>Example inputs\<close>

definition idle :: component where
  "idle = \<lparr>loading = False, data = [], error = [], originalFileName = [], progress = 0,
           sent = 0, events = []\<rparr>"

definition loaded :: component where
  "loaded = \<lparr>loading = False, data = [\<lparr>original = ''a'', translated = ''b''\<rparr>], error = [],
             originalFileName = ''in.xlsx'', progress = 100, sent = 1, events = []\<rparr>"

definition http_error :: "nat \<Rightarrow> js_error" where
  "http_error code = AxiosError (Some \<lparr>status = code, error_message = NoMessage\<rparr>) ''Request failed''"


definition replies_ok :: network where
  "replies_ok n body = Resolved (Some ''ok'')"

definition fails_at :: "nat \<Rightarrow> js_error \<Rightarrow> network" where
  "fails_at k e n body = (if n = k then Rejected e else Resolved (Some ''ok''))"

definition sheet_of :: "nat \<Rightarrow> uploaded_file" where
  "sheet_of n = \<lparr>file_name = ''in.xlsx'', sheet_rows = Some (replicate n [Some ''x''])\<rparr>"

definition blank_sheet :: uploaded_file where
  "blank_sheet = \<lparr>file_name = ''in.xlsx'', sheet_rows = Some [[None, Some ''x''], [], [Some []]]\<rparr>"

definition always_writes :: "workbook \<Rightarrow> string \<Rightarrow> bool" where
  "always_writes wb n = True"

definition never_writes :: "workbook \<Rightarrow> string \<Rightarrow> bool" where
  "never_writes wb n = False"

section \<open>Auxiliary facts\<close>

lemma expo_bounds:
  "0 < x \<Longrightarrow> power_int 2 (expo x) \<le> x \<and> x < power_int 2 (expo x + 1)"
proof (induction x rule: expo.induct)
  case (1 x)
  show ?case
  proof (cases "x < 1")
    case True
    with "1.prems" have e: "expo x = expo (2 * x) - 1" by (subst expo.simps) simp
    from "1.IH"(1) "1.prems" True
    have ih: "power_int 2 (expo (2 * x)) \<le> 2 * x" "2 * x < power_int 2 (expo (2 * x) + 1)"
      by simp_all
    have "power_int 2 (expo (2 * x)) = 2 * power_int (2::real) (expo (2 * x) - 1)"
      by (simp add: power_int_diff)
    moreover have "power_int 2 (expo (2 * x) + 1) = 2 * power_int (2::real) (expo (2 * x))"
      by (simp add: power_int_add)
    ultimately show ?thesis using ih e by simp
  next
    case False
    show ?thesis
    proof (cases "2 \<le> x")
      case True
      with False "1.prems" have e: "expo x = expo (x / 2) + 1" by (subst expo.simps) simp
      from "1.IH"(2) "1.prems" False True
      have ih: "power_int 2 (expo (x / 2)) \<le> x / 2" "x / 2 < power_int 2 (expo (x / 2) + 1)"
        by simp_all
      have "power_int 2 (expo (x / 2) + 1) = 2 * power_int (2::real) (expo (x / 2))"
        by (simp add: power_int_add)
      moreover have "power_int 2 (expo (x / 2) + 1 + 1) = 2 * power_int (2::real) (expo (x / 2) + 1)"
        by (simp add: power_int_add)
      ultimately show ?thesis using ih e by simp
    next
      case b: False
      with False "1.prems" have "expo x = 0" by (subst expo.simps) simp
      with False b show ?thesis by simp
    qed
  qed
qed

lemma power_int_2_mono: "a \<le> b \<Longrightarrow> power_int (2::real) a \<le> power_int 2 b"
  by (rule power_int_increasing) simp_all

lemma expo_unique:
  assumes "0 < x" "power_int 2 e \<le> x" "x < power_int 2 (e + 1)"
  shows "expo x = e"
proof (rule ccontr)
  assume ne: "expo x \<noteq> e"
  from expo_bounds[OF assms(1)]
  have b: "power_int 2 (expo x) \<le> x" "x < power_int 2 (expo x + 1)" by simp_all
  show False
  proof (cases "expo x < e")
    case True
    then have "power_int (2::real) (expo x + 1) \<le> power_int 2 e" by (intro power_int_2_mono) simp
    with b(2) assms(2) show False by simp
  next
    case False
    with ne have "power_int (2::real) (e + 1) \<le> power_int 2 (expo x)" by (intro power_int_2_mono) simp
    with b(1) assms(3) show False by simp
  qed
qed

lemma expo_mono:
  assumes "0 < x" "x \<le> y"
  shows "expo x \<le> expo y"
proof (rule ccontr)
  assume "\<not> expo x \<le> expo y"
  then have "power_int (2::real) (expo y + 1) \<le> power_int 2 (expo x)" by (intro power_int_2_mono) simp
  moreover from assms have "0 < y" by simp
  ultimately show False
    using expo_bounds[OF assms(1)] expo_bounds[OF \<open>0 < y\<close>] assms(2) by simp
qed

lemma rne_lower: "of_int k \<le> r \<Longrightarrow> k \<le> rne r"
proof -
  assume "of_int k \<le> r"
  then have "k \<le> \<lfloor>r\<rfloor>" by (simp add: le_floor_iff)
  then show ?thesis by (simp add: rne_def Let_def)
qed

lemma rne_upper: "r \<le> of_int k \<Longrightarrow> rne r \<le> k"
proof -
  assume a: "r \<le> of_int k"
  show ?thesis
  proof (cases "r = of_int k")
    case True
    then show ?thesis by (simp add: rne_def Let_def)
  next
    case False
    with a have "r < of_int k" by simp
    then have "\<lfloor>r\<rfloor> < k" by (simp add: floor_less_iff)
    then show ?thesis by (simp add: rne_def Let_def)
  qed
qed

lemma rne_mono: "r \<le> s \<Longrightarrow> rne r \<le> rne s"
proof -
  assume rs: "r \<le> s"
  then have fl: "\<lfloor>r\<rfloor> \<le> \<lfloor>s\<rfloor>" by (rule floor_mono)
  show ?thesis
  proof (cases "\<lfloor>r\<rfloor> = \<lfloor>s\<rfloor>")
    case True
    with rs have "r - of_int \<lfloor>r\<rfloor> \<le> s - of_int \<lfloor>s\<rfloor>" by simp
    with True show ?thesis by (auto simp: rne_def Let_def)
  next
    case False
    with fl have "\<lfloor>r\<rfloor> + 1 \<le> \<lfloor>s\<rfloor>" by simp
    moreover have "rne r \<le> \<lfloor>r\<rfloor> + 1" by (simp add: rne_def Let_def)
    moreover have "\<lfloor>s\<rfloor> \<le> rne s" by (simp add: rne_def Let_def)
    ultimately show ?thesis by linarith
  qed
qed

lemma round_pos_bounds:
  assumes "0 < x"
  shows "power_int 2 (expo x) \<le> round_pos x" "round_pos x \<le> power_int 2 (expo x + 1)"
proof -
  define P :: real where "P = power_int 2 (expo x)"
  define m where "m = rne (x * power_int 2 (52 - expo x))"
  have P: "0 < P" by (simp add: P_def)
  have s: "power_int (2::real) (52 - expo x) = 2 ^ 52 / P"
    by (simp add: P_def power_int_diff)
  have t: "power_int (2::real) (expo x - 52) = P / 2 ^ 52"
    by (simp add: P_def power_int_diff)
  have u: "power_int (2::real) (expo x + 1) = 2 * P"
    by (simp add: P_def power_int_add)
  from expo_bounds[OF assms] have xb: "P \<le> x" "x < 2 * P" by (simp_all add: u) (simp add: P_def)
  have "of_int (2 ^ 52) \<le> x * (2 ^ 52 / P)" using xb(1) P by (simp add: field_simps)
  then have lo: "2 ^ 52 \<le> m" unfolding m_def s by (rule rne_lower)
  have "x * (2 ^ 52 / P) \<le> of_int (2 ^ 53)" using xb(2) P by (simp add: field_simps)
  then have hi: "m \<le> 2 ^ 53" unfolding m_def s by (rule rne_upper)
  have rp: "round_pos x = of_int m * (P / 2 ^ 52)" by (simp add: round_pos_def m_def t)
  from lo have "(2::real) ^ 52 \<le> of_int m" by (metis of_int_le_iff of_int_numeral of_int_power)
  then show "power_int 2 (expo x) \<le> round_pos x"
    unfolding rp using P by (simp add: field_simps P_def[symmetric])
  from hi have "of_int m \<le> (2::real) ^ 53" by (metis of_int_le_iff of_int_numeral of_int_power)
  then show "round_pos x \<le> power_int 2 (expo x + 1)"
    unfolding rp u using P by (simp add: field_simps)
qed

lemma round_pos_mono:
  assumes "0 < x" "x \<le> y"
  shows "round_pos x \<le> round_pos y"
proof (cases "expo x = expo y")
  case True
  have "x * power_int 2 (52 - expo y) \<le> y * power_int 2 (52 - expo y)"
    using assms(2) by (intro mult_right_mono) simp_all
  then have "rne (x * power_int 2 (52 - expo y)) \<le> rne (y * power_int 2 (52 - expo y))"
    by (rule rne_mono)
  then have "real_of_int (rne (x * power_int 2 (52 - expo y))) * power_int 2 (expo y - 52)
      \<le> real_of_int (rne (y * power_int 2 (52 - expo y))) * power_int 2 (expo y - 52)"
    by (intro mult_right_mono) simp_all
  then show ?thesis by (simp add: round_pos_def True)
next
  case False
  from assms have y: "0 < y" by simp
  from False expo_mono[OF assms] have "expo x + 1 \<le> expo y" by simp
  then have "power_int (2::real) (expo x + 1) \<le> power_int 2 (expo y)" by (rule power_int_2_mono)
  with round_pos_bounds(2)[OF assms(1)] round_pos_bounds(1)[OF y] show ?thesis by linarith
qed

lemma double_round_nonneg: "0 \<le> x \<Longrightarrow> 0 \<le> double_round x"
proof -
  assume "0 \<le> x"
  show ?thesis
  proof (cases "0 < x")
    case True
    have "(0::real) \<le> power_int 2 (expo x)" by simp
    with round_pos_bounds(1)[OF True] have "0 \<le> round_pos x" by linarith
    with True show ?thesis by (simp add: double_round_def)
  next
    case False
    with \<open>0 \<le> x\<close> show ?thesis by (simp add: double_round_def)
  qed
qed

lemma double_round_mono:
  assumes "0 \<le> x" "x \<le> y"
  shows "double_round x \<le> double_round y"
proof (cases "0 < x")
  case True
  with assms have "0 < y" by simp
  with True round_pos_mono[OF True assms(2)] show ?thesis by (simp add: double_round_def)
next
  case False
  with assms have "x = 0" "0 \<le> y" by simp_all
  with double_round_nonneg[of y] show ?thesis by (simp add: double_round_def)
qed

lemma rne_near:
  assumes "\<bar>r - of_int m\<bar> < 1 / 2"
  shows "rne r = m"
proof -
  from assms have b: "of_int m - 1 / 2 < r" "r < of_int m + 1 / 2" by linarith+
  show ?thesis
  proof (cases "of_int m \<le> r")
    case True
    with b have "\<lfloor>r\<rfloor> = m" by (intro floor_unique) simp_all
    with b show ?thesis by (simp add: rne_def Let_def)
  next
    case False
    with b have "\<lfloor>r\<rfloor> = m - 1" by (intro floor_unique) simp_all
    with b False show ?thesis by (simp add: rne_def Let_def)
  qed
qed

lemma double_round_near:
  assumes "0 < x" "power_int 2 e \<le> x" "x < power_int 2 (e + 1)"
    and "\<bar>x * power_int 2 (52 - e) - of_int m\<bar> < 1 / 2"
  shows "double_round x = of_int m * power_int 2 (e - 52)"
proof -
  have "expo x = e" using assms(1-3) by (rule expo_unique)
  with assms(1) rne_near[OF assms(4)] show ?thesis
    by (simp add: double_round_def round_pos_def)
qed

lemma double_round_1: "double_round 1 = 1"
  using double_round_near[of 1 0 "2 ^ 52"] by simp

lemma double_round_100: "double_round 100 = 100"
  using double_round_near[of 100 6 "100 * 2 ^ 46"] by simp

lemma progress_values_append: "progress_values (a @ b) = progress_values a @ progress_values b"
  by (induction a rule: progress_values.induct) simp_all

lemma data_values_append: "data_values (a @ b) = data_values a @ data_values b"
  by (induction a rule: data_values.induct) simp_all

lemma item_result_Cons_0: "item_result net s (t # ts) 0 = translateText_result (net s (request_text t))"
  by (simp add: item_result_def)

lemma item_result_Cons_Suc: "item_result net s (t # ts) (Suc j) = item_result net (Suc s) ts j"
  by (simp add: item_result_def)

lemma translateBatch_loop_frame:
  "translateBatch_loop net texts acc w = (r, w') \<Longrightarrow>
     loading w' = loading w \<and> data w' = data w \<and> error w' = error w \<and>
     originalFileName w' = originalFileName w \<and> progress w' = progress w \<and>
     progress_values (events w') = progress_values (events w) \<and>
     data_values (events w') = data_values (events w)"
proof (induction texts arbitrary: acc w)
  case Nil
  then show ?case by simp
next
  case (Cons t ts)
  show ?case
  proof (cases "translateText_result (net (sent w) (request_text t))")
    case (Inl msg)
    with Cons show ?thesis
      by (auto simp: translateText_def Let_def progress_values_append data_values_append
               split: if_splits dest!: Cons.IH)
  next
    case (Inr s)
    with Cons show ?thesis
      by (auto simp: translateText_def Let_def delay_def progress_values_append data_values_append
               dest!: Cons.IH)
  qed
qed

lemma translateBatch_loop_complete:
  "\<forall>j<length texts. \<not> is_quota (item_result net (sent w) texts j) \<Longrightarrow>
   translateBatch_loop net texts acc w = (r, w') \<Longrightarrow>
     r = Inr (acc @ map (\<lambda>j. item_translation (item_result net (sent w) texts j)) [0..<length texts])
     \<and> sent w' = sent w + length texts"
proof (induction texts arbitrary: acc w)
  case Nil
  then show ?case by simp
next
  case (Cons t ts)
  let ?r0 = "translateText_result (net (sent w) (request_text t))"
  from Cons.prems(1) have h0: "\<not> is_quota ?r0"
    by (auto simp: item_result_Cons_0 dest: spec[where x=0])
  from Cons.prems(1) have hs: "\<forall>j<length ts. \<not> is_quota (item_result net (Suc (sent w)) ts j)"
    by (auto simp: item_result_Cons_Suc dest: spec[where x="Suc j" for j])
  show ?case
  proof (cases ?r0)
    case (Inl msg)
    with h0 have nq: "\<not> str_includes msg ''quota''" by (simp add: is_quota_def)
    let ?w1 = "w\<lparr>sent := Suc (sent w), events := events w @ [Post (request_text t)]\<rparr>"
    from Cons.prems(2) Inl nq
    have "translateBatch_loop net ts (acc @ [DEBUG_TRANSLATED_PERSIAN]) ?w1 = (r, w')"
      by (simp add: translateText_def Let_def)
    from Cons.IH[OF _ this] hs Inl show ?thesis
      by (simp add: map_upt_Suc item_result_Cons_0 item_result_Cons_Suc item_translation_def del: upt_Suc)
  next
    case (Inr s)
    let ?w1 = "delay RATE_LIMIT_DELAY (w\<lparr>sent := Suc (sent w), events := events w @ [Post (request_text t)]\<rparr>)"
    from Cons.prems(2) Inr
    have "translateBatch_loop net ts (acc @ [s]) ?w1 = (r, w')"
      by (simp add: translateText_def Let_def)
    from Cons.IH[OF _ this] hs Inr show ?thesis
      by (simp add: map_upt_Suc item_result_Cons_0 item_result_Cons_Suc item_translation_def delay_def del: upt_Suc)
  qed
qed

lemma translateBatch_loop_quota:
  "k < length texts \<Longrightarrow> is_quota (item_result net (sent w) texts k) \<Longrightarrow>
   \<forall>j<k. \<not> is_quota (item_result net (sent w) texts j) \<Longrightarrow>
   translateBatch_loop net texts acc w = (r, w') \<Longrightarrow>
     r = Inl (failure_message (item_result net (sent w) texts k)) \<and> sent w' = sent w + Suc k"
proof (induction texts arbitrary: acc w k)
  case Nil
  then show ?case by simp
next
  case (Cons t ts)
  let ?r0 = "translateText_result (net (sent w) (request_text t))"
  show ?case
  proof (cases k)
    case 0
    with Cons.prems(2) have q: "is_quota ?r0" by (simp add: item_result_Cons_0)
    then obtain msg where m: "?r0 = Inl msg" "str_includes msg ''quota''"
      by (auto simp: is_quota_def split: sum.splits)
    with Cons.prems(4) 0 show ?thesis
      by (auto simp: translateText_def Let_def item_result_Cons_0 failure_message_def)
  next
    case (Suc k')
    with Cons.prems have k': "k' < length ts"
      and qk: "is_quota (item_result net (Suc (sent w)) ts k')"
      and nq: "\<forall>j<k'. \<not> is_quota (item_result net (Suc (sent w)) ts j)"
      and h0: "\<not> is_quota ?r0"
      by (auto simp: item_result_Cons_Suc item_result_Cons_0 dest: spec[where x="Suc j" for j] spec[where x=0])
    show ?thesis
    proof (cases ?r0)
      case (Inl msg)
      with h0 have nqm: "\<not> str_includes msg ''quota''" by (simp add: is_quota_def)
      let ?w1 = "w\<lparr>sent := Suc (sent w), events := events w @ [Post (request_text t)]\<rparr>"
      from Cons.prems(4) Inl nqm
      have "translateBatch_loop net ts (acc @ [DEBUG_TRANSLATED_PERSIAN]) ?w1 = (r, w')"
        by (simp add: translateText_def Let_def)
      from Cons.IH[OF k' _ _ this] qk nq Suc show ?thesis
        by (simp add: item_result_Cons_Suc)
    next
      case (Inr s)
      let ?w1 = "delay RATE_LIMIT_DELAY (w\<lparr>sent := Suc (sent w), events := events w @ [Post (request_text t)]\<rparr>)"
      from Cons.prems(4) Inr
      have "translateBatch_loop net ts (acc @ [s]) ?w1 = (r, w')"
        by (simp add: translateText_def Let_def)
      from Cons.IH[OF k' _ _ this] qk nq Suc show ?thesis
        by (simp add: item_result_Cons_Suc delay_def)
    qed
  qed
qed


declare upload_loop.simps [simp del]

lemma translateBatch_loop_only_quota:
  "translateBatch_loop net texts acc w = (Inl msg, w') \<Longrightarrow> str_includes msg ''quota''"
proof (induction texts arbitrary: acc w)
  case Nil
  then show ?case by simp
next
  case (Cons t ts)
  then show ?case
    by (cases "translateText_result (net (sent w) (request_text t))")
       (auto simp: translateText_def Let_def split: if_splits)
qed

lemma upload_loop_done:
  "\<not> i < length texts \<Longrightarrow> upload_loop net texts i td w = (td, w)"
  by (simp add: upload_loop.simps)

lemma upload_loop_ok:
  "i < length texts \<Longrightarrow>
   translateBatch net (slice texts i (i + BATCH_SIZE)) w = (Inr tb, w1) \<Longrightarrow>
   upload_loop net texts i td w =
     upload_loop net texts (i + BATCH_SIZE) (push_pairs (slice texts i (i + BATCH_SIZE)) tb td)
       (setData (push_pairs (slice texts i (i + BATCH_SIZE)) tb td)
          (setProgress (min (double_mul (double_div (real (i + BATCH_SIZE)) (real (length texts))) 100) 100) w1))"
  by (subst upload_loop.simps) (simp add: Let_def)

lemma upload_loop_quota:
  "i < length texts \<Longrightarrow>
   translateBatch net (slice texts i (i + BATCH_SIZE)) w = (Inl msg, w1) \<Longrightarrow>
   upload_loop net texts i td w = (td, setError msg w1)"
  by (subst upload_loop.simps)
     (auto simp: Let_def translateBatch_def dest: translateBatch_loop_only_quota)

lemma push_pairs_map:
  "push_pairs batch (map g [0..<m]) td =
     td @ map (\<lambda>j. \<lparr>original = batch ! j, translated = g j\<rparr>) [0..<m]"
  by (simp add: push_pairs_def enumerate_eq_zip zip_map2 zip_same_conv_map)

lemma length_slice: "length (slice xs a (a + c)) = min c (length xs - a)"
  by (simp add: slice_def)

lemma nth_slice: "j < length (slice xs a (a + c)) \<Longrightarrow> slice xs a (a + c) ! j = xs ! (a + j)"
proof -
  assume "j < length (slice xs a (a + c))"
  then have "j < c" and "a \<le> length xs" by (auto simp: slice_def)
  then show ?thesis by (simp add: slice_def)
qed

lemma item_result_slice:
  "j < length (slice texts a (a + c)) \<Longrightarrow>
   item_result net (s + a) (slice texts a (a + c)) j = item_result net s texts (a + j)"
  by (simp add: item_result_def nth_slice add.assoc)

lemma length_expected_pairs: "length (expected_pairs net s texts) = length texts"
  by (simp add: expected_pairs_def)

lemma batch_pairs:
  "take a (expected_pairs net s texts) @
     map (\<lambda>j. \<lparr>original = slice texts a (a + c) ! j,
               translated = item_translation (item_result net (s + a) (slice texts a (a + c)) j)\<rparr>)
       [0..<length (slice texts a (a + c))]
   = take (a + c) (expected_pairs net s texts)"
proof -
  let ?E = "expected_pairs net s texts"
  let ?b = "slice texts a (a + c)"
  have "map (\<lambda>j. \<lparr>original = ?b ! j, translated = item_translation (item_result net (s + a) ?b j)\<rparr>)
          [0..<length ?b] = take c (drop a ?E)"
    by (rule nth_equalityI)
       (auto simp: length_slice length_expected_pairs nth_slice item_result_slice expected_pairs_def)
  then show ?thesis by (simp add: take_add)
qed

section \<open>The translation client, the export and the empty input\<close>

lemma str_includes_QUOTA_MESSAGE: "str_includes QUOTA_MESSAGE ''quota''"
  by (simp add: QUOTA_MESSAGE_def)

lemma not_includes_INVALID_KEY_MESSAGE: "\<not> str_includes INVALID_KEY_MESSAGE ''quota''"
  by (simp add: INVALID_KEY_MESSAGE_def)

lemma not_includes_PROCESSING_ERROR_MESSAGE: "\<not> str_includes PROCESSING_ERROR_MESSAGE ''quota''"
  by (simp add: PROCESSING_ERROR_MESSAGE_def)




text \<open>
  Claim C6. The claim asks for one wait of \<open>RATE_LIMIT_DELAY\<close> after every translation
  call. In a batch of two items whose first call fails with status 401, the second request
  is sent right after the first: the only wait is the one after the second call.
\<close>
theorem failed_call_skips_delay:
  "events (snd (translateBatch (fails_at 0 (http_error 401)) [''a'', ''b''] idle)) =
     [Post (request_text ''a''), Post (request_text ''b''), Delay 1000]"
  by (simp add: translateBatch_def translateText_def Let_def fails_at_def http_error_def idle_def
        translateText_result_def translateText_try_def translateText_catch_def
        response_status_is_def response_message_def includes_quota_def
        INVALID_KEY_MESSAGE_def delay_def RATE_LIMIT_DELAY_def)

text \<open>
  Claim C8. When the export throws, the error message of the component is the export message,
  the pair sequence is the one before the export and no file is written.
\<close>
theorem handleExport_failure_keeps_data:
  assumes "\<not> writes (export_workbook w) (exportFileName_of w)"
  shows "error (handleExport writes w) = EXPORT_ERROR_MESSAGE
         \<and> data (handleExport writes w) = data w
         \<and> events (handleExport writes w) = events w"
  using assms by (simp add: handleExport_def Let_def setError_def)

text \<open>A failing export of one pair.\<close>
theorem handleExport_failure_keeps_data_witness:
  "\<not> never_writes (export_workbook loaded) (exportFileName_of loaded)
   \<and> error (handleExport never_writes loaded) = EXPORT_ERROR_MESSAGE
   \<and> data (handleExport never_writes loaded) = [\<lparr>original = ''a'', translated = ''b''\<rparr>]"
proof -
  have h: "\<not> never_writes (export_workbook loaded) (exportFileName_of loaded)"
    by (simp add: never_writes_def)
  show ?thesis
    using h handleExport_failure_keeps_data[where writes = never_writes and w = loaded] by (simp add: loaded_def)
qed

text \<open>
  Claim C7, as stated, names the second header label \<^verbatim>\<open>Translation\<close>; the header row
  written for a component holding one pair is not that one.
\<close>
theorem handleExport_header_counterexample:
  "header_row (last (events (handleExport always_writes loaded))) \<noteq> [''Original Text'', ''Translation'']"
  by (simp add: handleExport_def Let_def always_writes_def loaded_def export_workbook_def
        json_to_sheet_def header_row_def)

text \<open>
  Claim C7, amended. An export that does not throw writes one workbook with one sheet of
  two-cell rows: the header row \<^verbatim>\<open>Original Text\<close>, \<^verbatim>\<open>Persian Translation\<close>, then one
  row per pair in order; the file is named \<^verbatim>\<open>translated_\<close> followed by the name of the
  uploaded file, or \<^verbatim>\<open>translated_document.xlsx\<close> when no file name is stored.
\<close>
theorem handleExport_writes_sheet:
  assumes "writes (export_workbook w) (exportFileName_of w)"
  shows "events (handleExport writes w) =
           events w @
           [WriteFile
              [(''Translations'',
                \<lparr>cells = [''Original Text'', ''Persian Translation'']
                           # map (\<lambda>r. [original r, translated r]) (data w),
                 cols = [30, 30]\<rparr>)]
              (if originalFileName w \<noteq> [] then ''translated_'' @ originalFileName w
               else ''translated_document.xlsx'')]"
  using assms
  by (simp add: handleExport_def Let_def export_workbook_def exportFileName_of_def
        json_to_sheet_def comp_def)

text \<open>An export after an upload, and an export with no file name stored.\<close>
theorem handleExport_writes_sheet_witness:
  "always_writes (export_workbook loaded) (exportFileName_of loaded)
   \<and> events (handleExport always_writes loaded) =
       [WriteFile
          [(''Translations'',
            \<lparr>cells = [[''Original Text'', ''Persian Translation''], [''a'', ''b'']], cols = [30, 30]\<rparr>)]
          ''translated_in.xlsx'']
   \<and> always_writes (export_workbook idle) (exportFileName_of idle)
   \<and> events (handleExport always_writes idle) =
       [WriteFile
          [(''Translations'',
            \<lparr>cells = [[''Original Text'', ''Persian Translation'']], cols = [30, 30]\<rparr>)]
          ''translated_document.xlsx'']"
proof -
  have h: "always_writes (export_workbook loaded) (exportFileName_of loaded)"
    and h': "always_writes (export_workbook idle) (exportFileName_of idle)"
    by (simp_all add: always_writes_def)
  show ?thesis
    using h h' handleExport_writes_sheet[where writes = always_writes and w = loaded]
      handleExport_writes_sheet[where writes = always_writes and w = idle]
    by (simp add: loaded_def idle_def)
qed

lemma posts_append: "posts (a @ b) = posts a @ posts b"
  by (induction a rule: posts.induct) simp_all

text \<open>
  Claim C9. When no row of the uploaded sheet has a value in its first column, the pair
  sequence after the run is empty and the run sends no request.
\<close>
theorem empty_input_no_calls:
  assumes "sheet_rows file = Some rows" and "textsToTranslate_of rows = []"
  shows "data (handleFileUpload net (Some file) w) = []
         \<and> sent (handleFileUpload net (Some file) w) = sent w
         \<and> posts (events (handleFileUpload net (Some file) w)) = posts (events w)"
  using assms
  by (simp add: handleFileUpload_def Let_def upload_loop_done setData_def setProgress_def
        setError_def setLoading_def setOriginalFileName_def posts_append)

text \<open>A sheet of three rows, none with a first-column value.\<close>
theorem empty_input_no_calls_witness:
  "sheet_rows blank_sheet = Some [[None, Some ''x''], [], [Some []]]
   \<and> textsToTranslate_of [[None, Some ''x''], [], [Some []]] = []
   \<and> data (handleFileUpload replies_ok (Some blank_sheet) loaded) = []
   \<and> sent (handleFileUpload replies_ok (Some blank_sheet) loaded) = 1
   \<and> posts (events (handleFileUpload replies_ok (Some blank_sheet) loaded)) = []"
proof -
  have a: "sheet_rows blank_sheet = Some [[None, Some ''x''], [], [Some []]]"
    by (simp add: blank_sheet_def)
  have b: "textsToTranslate_of [[None, Some ''x''], [], [Some []]] = []"
    by (simp add: textsToTranslate_of_def row0_def truthy_def)
  show ?thesis
    using a b empty_input_no_calls[of blank_sheet "[[None, Some ''x''], [], [Some []]]" replies_ok loaded] by (simp add: loaded_def)
qed

section \<open>The batch loop\<close>

lemma upload_loop_data:
  "upload_loop net texts a td w = (td', w') \<Longrightarrow> data w = td \<Longrightarrow> data w' = td'"
proof (induction "length texts - a" arbitrary: a td w rule: less_induct)
  case less
  show ?case
  proof (cases "a < length texts")
    case False
    with less.prems show ?thesis by (simp add: upload_loop_done)
  next
    case True
    let ?batch = "slice texts a (a + BATCH_SIZE)"
    obtain r w1 where tb: "translateBatch net ?batch w = (r, w1)" by (cases "translateBatch net ?batch w")
    show ?thesis
    proof (cases r)
      case (Inl msg)
      from tb have "data w1 = data w"
        by (auto simp: translateBatch_def dest: translateBatch_loop_frame)
      with less.prems True tb Inl show ?thesis
        by (auto simp: upload_loop_quota setError_def)
    next
      case (Inr tb_res)
      let ?td = "push_pairs ?batch tb_res td"
      let ?w2 = "setData ?td (setProgress (min (double_mul (double_div (real (a + BATCH_SIZE)) (real (length texts))) 100) 100) w1)"
      from less.prems(1) True tb Inr
      have run: "upload_loop net texts (a + BATCH_SIZE) ?td ?w2 = (td', w')"
        by (simp add: upload_loop_ok)
      have "length texts - (a + BATCH_SIZE) < length texts - a"
        using True by (simp add: BATCH_SIZE_def)
      from less.hyps[OF this run] show ?thesis by (simp add: setData_def)
    qed
  qed
qed

lemma double_progress_nonneg: "0 \<le> min (double_mul (double_div (real a) (real n)) 100) 100"
proof -
  have "0 \<le> double_div (real a) (real n)"
    unfolding double_div_def by (rule double_round_nonneg) simp
  then have "0 \<le> double_mul (double_div (real a) (real n)) 100"
    unfolding double_mul_def by (intro double_round_nonneg) simp
  then show ?thesis by simp
qed

lemma double_progress_mono:
  assumes "a \<le> b"
  shows "min (double_mul (double_div (real a) (real n)) 100) 100
           \<le> min (double_mul (double_div (real b) (real n)) 100) 100"
proof -
  have "real a / real n \<le> real b / real n"
    using assms by (intro divide_right_mono) simp_all
  then have q: "double_div (real a) (real n) \<le> double_div (real b) (real n)"
    unfolding double_div_def by (intro double_round_mono) simp_all
  have "0 \<le> double_div (real a) (real n)"
    unfolding double_div_def by (rule double_round_nonneg) simp
  with q have "double_mul (double_div (real a) (real n)) 100
      \<le> double_mul (double_div (real b) (real n)) 100"
    unfolding double_mul_def by (intro double_round_mono mult_right_mono) simp_all
  then show ?thesis by (rule min.mono) simp
qed

lemma progress_bound_mono:
  "min (double_mul (double_div (real (a + BATCH_SIZE)) (real n)) 100) 100
     \<le> min (double_mul (double_div (real (a + BATCH_SIZE + BATCH_SIZE)) (real n)) 100) 100"
  by (rule double_progress_mono) simp

lemma upload_loop_progress:
  "upload_loop net texts a td w = (td', w') \<Longrightarrow>
   \<exists>P. progress_values (events w') = progress_values (events w) @ P \<and> sorted P \<and>
       (\<forall>p\<in>set P. min (double_mul (double_div (real (a + BATCH_SIZE)) (real (length texts))) 100) 100 \<le> p \<and> p \<le> 100)"
proof (induction "length texts - a" arbitrary: a td w rule: less_induct)
  case less
  show ?case
  proof (cases "a < length texts")
    case False
    with less.prems have "w' = w" by (simp add: upload_loop_done)
    then show ?thesis by simp
  next
    case True
    let ?batch = "slice texts a (a + BATCH_SIZE)"
    let ?p = "min (double_mul (double_div (real (a + BATCH_SIZE)) (real (length texts))) 100) 100"
    obtain r w1 where tb: "translateBatch net ?batch w = (r, w1)" by (cases "translateBatch net ?batch w")
    then have pv1: "progress_values (events w1) = progress_values (events w)"
      by (auto simp: translateBatch_def dest: translateBatch_loop_frame)
    show ?thesis
    proof (cases r)
      case (Inl msg)
      with less.prems True tb have "w' = setError msg w1"
        by (simp add: upload_loop_quota)
      with pv1 show ?thesis by (simp add: setError_def)
    next
      case (Inr tb_res)
      let ?td = "push_pairs ?batch tb_res td"
      let ?w2 = "setData ?td (setProgress ?p w1)"
      from less.prems(1) True tb Inr
      have run: "upload_loop net texts (a + BATCH_SIZE) ?td ?w2 = (td', w')"
        by (simp add: upload_loop_ok)
      have "length texts - (a + BATCH_SIZE) < length texts - a"
        using True by (simp add: BATCH_SIZE_def)
      from less.hyps[OF this run] obtain P where
        P: "progress_values (events w') = progress_values (events ?w2) @ P" "sorted P"
          "\<forall>p\<in>set P. min (double_mul (double_div (real (a + BATCH_SIZE + BATCH_SIZE)) (real (length texts))) 100) 100 \<le> p \<and> p \<le> 100"
        by blast
      have pv2: "progress_values (events ?w2) = progress_values (events w) @ [?p]"
        by (simp add: setData_def setProgress_def progress_values_append pv1)
      have lo: "\<forall>p\<in>set P. ?p \<le> p"
        using P(3) progress_bound_mono[of a "length texts"] by (meson order_trans)
      have "progress_values (events w') = progress_values (events w) @ (?p # P)"
        using P(1) pv2 by simp
      moreover have "sorted (?p # P)" using P(2) lo by simp
      moreover have "\<forall>q\<in>set (?p # P). ?p \<le> q \<and> q \<le> 100" using P(3) lo by simp
      ultimately show ?thesis by blast
    qed
  qed
qed

lemma handleFileUpload_unreadable:
  "sheet_rows file = None \<Longrightarrow>
   handleFileUpload net (Some file) w =
     setProgress 100 (setLoading False (setError PROCESSING_ERROR_MESSAGE (run_start file w)))"
  by (simp add: handleFileUpload_def Let_def run_start_def)

lemma handleFileUpload_run:
  "sheet_rows file = Some rows \<Longrightarrow>
   upload_loop net (textsToTranslate_of rows) 0 [] (run_start file w) = (td, w') \<Longrightarrow>
   handleFileUpload net (Some file) w =
     setProgress 100 (setLoading False (if length td > 0 then setData td w' else w'))"
  by (simp add: handleFileUpload_def Let_def run_start_def)

lemma run_start_fields:
  "sent (run_start file w) = sent w" "data (run_start file w) = []" "error (run_start file w) = []"
  "progress_values (events (run_start file w)) = progress_values (events w) @ [0]"
  "data_values (events (run_start file w)) = data_values (events w) @ [[]]"
  by (simp_all add: run_start_def setOriginalFileName_def setData_def setProgress_def setError_def
        setLoading_def progress_values_append data_values_append)

text \<open>
  Claim C5. In the run started by an upload, the progress values emitted (after those the
  trace already held) are non-decreasing, the last of them is 100 and the progress of the
  component after the run is 100, for every network: also when a quota error ends the run
  early or the file cannot be read.
\<close>

theorem progress_monotone_ends_at_100:
  "progress_values (events (handleFileUpload net (Some file) w))
     = progress_values (events w) @ new_progress w (handleFileUpload net (Some file) w)
   \<and> sorted (new_progress w (handleFileUpload net (Some file) w))
   \<and> last (new_progress w (handleFileUpload net (Some file) w)) = 100
   \<and> progress (handleFileUpload net (Some file) w) = 100"
proof (cases "sheet_rows file")
  case None
  have "progress_values (events (handleFileUpload net (Some file) w)) = progress_values (events w) @ [0, 100]"
    by (simp add: handleFileUpload_unreadable[OF None] setProgress_def setLoading_def setError_def
          run_start_fields progress_values_append)
  moreover have "progress (handleFileUpload net (Some file) w) = 100"
    by (simp add: handleFileUpload_unreadable[OF None] setProgress_def)
  ultimately show ?thesis by (simp add: new_progress_def)
next
  case (Some rows)
  obtain td w' where run: "upload_loop net (textsToTranslate_of rows) 0 [] (run_start file w) = (td, w')"
    by (cases "upload_loop net (textsToTranslate_of rows) 0 [] (run_start file w)")
  from upload_loop_progress[OF run] obtain P where
    P: "progress_values (events w') = progress_values (events (run_start file w)) @ P" "sorted P"
       "\<forall>p\<in>set P. min (double_mul (double_div (real (0 + BATCH_SIZE)) (real (length (textsToTranslate_of rows)))) 100) 100 \<le> p \<and> p \<le> 100"
    by blast
  have "(0::real) \<le> min (double_mul (double_div (real (0 + BATCH_SIZE)) (real (length (textsToTranslate_of rows)))) 100) 100"
    by (rule double_progress_nonneg)
  with P(3) have bounds: "\<forall>p\<in>set P. 0 \<le> p \<and> p \<le> 100" by (meson order_trans)
  have ev: "progress_values (events (handleFileUpload net (Some file) w))
              = progress_values (events w) @ (0 # P @ [100])"
    by (simp add: handleFileUpload_run[OF Some run] setProgress_def setLoading_def setData_def
          progress_values_append P(1) run_start_fields)
  have "sorted (0 # P @ [100])" using P(2) bounds by (simp add: sorted_append)
  moreover have "last (0 # P @ [100]) = 100" by simp
  moreover have "progress (handleFileUpload net (Some file) w) = 100"
    by (simp add: handleFileUpload_run[OF Some run] setProgress_def)
  ultimately show ?thesis using ev by (simp add: new_progress_def)
qed


lemma code_progress_is_batch_progress:
  assumes "BATCH_SIZE * c < n"
  shows "min (double_mul (double_div (real (BATCH_SIZE * Suc c)) (real n)) 100) 100 = batch_progress n c"
proof (cases "BATCH_SIZE * Suc c \<le> n")
  case True
  then have "attempted n c = BATCH_SIZE * Suc c" by (simp add: attempted_def)
  then show ?thesis by (simp only: batch_progress_def)
next
  case False
  then have att: "attempted n c = n" by (simp add: attempted_def)
  from assms have n: "0 < real n" by simp
  from False have "n \<le> BATCH_SIZE * Suc c" by simp
  then have "real n \<le> real (BATCH_SIZE * Suc c)" by (simp only: of_nat_le_iff)
  with n have "1 \<le> real (BATCH_SIZE * Suc c) / real n" by (simp add: field_simps)
  then have "double_round 1 \<le> double_div (real (BATCH_SIZE * Suc c)) (real n)"
    unfolding double_div_def by (intro double_round_mono) simp_all
  then have "100 \<le> double_div (real (BATCH_SIZE * Suc c)) (real n) * 100"
    by (simp add: double_round_1)
  then have "double_round 100 \<le> double_mul (double_div (real (BATCH_SIZE * Suc c)) (real n)) 100"
    unfolding double_mul_def by (intro double_round_mono) simp_all
  then have code: "min (double_mul (double_div (real (BATCH_SIZE * Suc c)) (real n)) 100) 100 = 100"
    by (simp add: double_round_100)
  from n have "real n / real n = 1" by simp
  then have "batch_progress n c = 100"
    by (simp add: batch_progress_def att double_div_def double_mul_def double_round_1 double_round_100)
  with code show ?thesis by simp
qed

lemma upload_step_complete:
  assumes a: "a < length texts"
    and nq: "\<forall>j. a \<le> j \<and> j < a + BATCH_SIZE \<and> j < length texts \<longrightarrow> \<not> is_quota (item_result net s texts j)"
    and s: "sent w = s + a"
  shows "\<exists>w2. upload_loop net texts a (take a (expected_pairs net s texts)) w
               = upload_loop net texts (a + BATCH_SIZE) (take (a + BATCH_SIZE) (expected_pairs net s texts)) w2
          \<and> sent w2 = s + min (a + BATCH_SIZE) (length texts) \<and> error w2 = error w
          \<and> progress_values (events w2) = progress_values (events w)
                @ [min (double_mul (double_div (real (a + BATCH_SIZE)) (real (length texts))) 100) 100]
          \<and> data_values (events w2) = data_values (events w)
                @ [take (a + BATCH_SIZE) (expected_pairs net s texts)]"
proof -
  let ?E = "expected_pairs net s texts"
  let ?batch = "slice texts a (a + BATCH_SIZE)"
  let ?p = "min (double_mul (double_div (real (a + BATCH_SIZE)) (real (length texts))) 100) 100"
  obtain r w1 where tb: "translateBatch_loop net ?batch [] w = (r, w1)"
    by (cases "translateBatch_loop net ?batch [] w")
  have len: "length ?batch = min BATCH_SIZE (length texts - a)" by (rule length_slice)
  have nqb: "\<forall>j<length ?batch. \<not> is_quota (item_result net (sent w) ?batch j)"
  proof (intro allI impI)
    fix j assume j: "j < length ?batch"
    then have "a + j < a + BATCH_SIZE" "a + j < length texts" using len by auto
    with nq have "\<not> is_quota (item_result net s texts (a + j))" by simp
    with j show "\<not> is_quota (item_result net (sent w) ?batch j)"
      by (simp add: s item_result_slice)
  qed
  from translateBatch_loop_complete[OF nqb tb]
  have r: "r = Inr (map (\<lambda>j. item_translation (item_result net (s + a) ?batch j)) [0..<length ?batch])"
    and s1: "sent w1 = s + a + length ?batch"
    by (simp_all add: s)
  from translateBatch_loop_frame[OF tb]
  have fr: "error w1 = error w" "progress_values (events w1) = progress_values (events w)"
    "data_values (events w1) = data_values (events w)"
    by simp_all
  let ?tb = "map (\<lambda>j. item_translation (item_result net (s + a) ?batch j)) [0..<length ?batch]"
  have push: "push_pairs ?batch ?tb (take a ?E) = take (a + BATCH_SIZE) ?E"
    by (simp only: push_pairs_map batch_pairs)
  let ?w2 = "setData (take (a + BATCH_SIZE) ?E) (setProgress ?p w1)"
  have "upload_loop net texts a (take a ?E) w = upload_loop net texts (a + BATCH_SIZE) (take (a + BATCH_SIZE) ?E) ?w2"
    using upload_loop_ok[OF a, of net w ?tb w1 "take a ?E"] tb r push
    by (simp add: translateBatch_def)
  moreover have "sent ?w2 = s + min (a + BATCH_SIZE) (length texts)"
    using s1 len a by (auto simp: setData_def setProgress_def min_def)
  moreover have "error ?w2 = error w" using fr by (simp add: setData_def setProgress_def)
  moreover have "progress_values (events ?w2) = progress_values (events w) @ [?p]"
    using fr by (simp add: setData_def setProgress_def progress_values_append)
  moreover have "data_values (events ?w2) = data_values (events w) @ [take (a + BATCH_SIZE) ?E]"
    using fr by (simp add: setData_def setProgress_def data_values_append)
  ultimately show ?thesis by blast
qed

lemma batch_count_less: "b < batch_count n \<longleftrightarrow> BATCH_SIZE * b < n"
  by (auto simp: batch_count_def BATCH_SIZE_def)

lemma upload_loop_complete:
  assumes nq: "\<forall>j<length texts. \<not> is_quota (item_result net s texts j)"
  shows "sent w = s + min (BATCH_SIZE * b) (length texts) \<Longrightarrow>
     \<exists>w'. upload_loop net texts (BATCH_SIZE * b) (take (BATCH_SIZE * b) (expected_pairs net s texts)) w
             = (expected_pairs net s texts, w')
        \<and> sent w' = s + length texts \<and> error w' = error w
        \<and> progress_values (events w') = progress_values (events w)
              @ map (batch_progress (length texts)) [b..<batch_count (length texts)]
        \<and> data_values (events w') = data_values (events w)
              @ map (\<lambda>c. take (BATCH_SIZE * Suc c) (expected_pairs net s texts)) [b..<batch_count (length texts)]"
proof (induction "length texts - BATCH_SIZE * b" arbitrary: b w rule: less_induct)
  case less
  let ?E = "expected_pairs net s texts"
  let ?n = "length texts"
  show ?case
  proof (cases "BATCH_SIZE * b < ?n")
    case False
    then have "\<not> b < batch_count ?n" by (simp add: batch_count_less)
    moreover from False have "take (BATCH_SIZE * b) ?E = ?E" by (simp add: length_expected_pairs)
    moreover from False less.prems have "sent w = s + ?n" by (simp add: min_def)
    ultimately show ?thesis using False by (simp add: upload_loop_done)
  next
    case True
    then have bc: "b < batch_count ?n" by (simp add: batch_count_less)
    from True less.prems have sw: "sent w = s + BATCH_SIZE * b" by (simp add: min_def)
    from nq have nqb: "\<forall>j. BATCH_SIZE * b \<le> j \<and> j < BATCH_SIZE * b + BATCH_SIZE \<and> j < ?n
        \<longrightarrow> \<not> is_quota (item_result net s texts j)" by simp
    have eq: "BATCH_SIZE * b + BATCH_SIZE = BATCH_SIZE * Suc b" by simp
    from upload_step_complete[OF True nqb sw, unfolded eq code_progress_is_batch_progress[OF True]]
    obtain w2 where
      st: "upload_loop net texts (BATCH_SIZE * b) (take (BATCH_SIZE * b) ?E) w
             = upload_loop net texts (BATCH_SIZE * Suc b) (take (BATCH_SIZE * Suc b) ?E) w2"
      and s2: "sent w2 = s + min (BATCH_SIZE * Suc b) ?n" and e2: "error w2 = error w"
      and p2: "progress_values (events w2) = progress_values (events w) @ [batch_progress ?n b]"
      and d2: "data_values (events w2) = data_values (events w) @ [take (BATCH_SIZE * Suc b) ?E]"
      by blast
    have "?n - BATCH_SIZE * Suc b < ?n - BATCH_SIZE * b"
      using True by (simp add: BATCH_SIZE_def)
    from less.hyps[OF this s2] obtain w' where
      r: "upload_loop net texts (BATCH_SIZE * Suc b) (take (BATCH_SIZE * Suc b) ?E) w2 = (?E, w')"
      and s': "sent w' = s + ?n" and e': "error w' = error w2"
      and p': "progress_values (events w') = progress_values (events w2)
              @ map (batch_progress ?n) [Suc b..<batch_count ?n]"
      and d': "data_values (events w') = data_values (events w2)
              @ map (\<lambda>c. take (BATCH_SIZE * Suc c) ?E) [Suc b..<batch_count ?n]"
      by blast
    have "upload_loop net texts (BATCH_SIZE * b) (take (BATCH_SIZE * b) ?E) w = (?E, w')"
      using st r by simp
    moreover have "error w' = error w" using e' e2 by simp
    moreover have "progress_values (events w') = progress_values (events w)
              @ map (batch_progress ?n) [b..<batch_count ?n]"
      using p' p2 bc by (simp add: upt_conv_Cons)
    moreover have "data_values (events w') = data_values (events w)
              @ map (\<lambda>c. take (BATCH_SIZE * Suc c) ?E) [b..<batch_count ?n]"
      using d' d2 bc by (simp add: upt_conv_Cons)
    ultimately show ?thesis using s' by blast
  qed
qed


lemma upload_step_quota:
  assumes k: "k < length texts"
    and q: "is_quota (item_result net s texts k)"
    and nq: "\<forall>j<k. \<not> is_quota (item_result net s texts j)"
    and a: "a \<le> k" "k < a + BATCH_SIZE"
    and s: "sent w = s + a"
  shows "\<exists>w'. upload_loop net texts a td w = (td, w')
          \<and> sent w' = s + Suc k \<and> error w' = failure_message (item_result net s texts k)
          \<and> progress_values (events w') = progress_values (events w)
          \<and> data_values (events w') = data_values (events w)"
proof -
  let ?batch = "slice texts a (a + BATCH_SIZE)"
  let ?msg = "failure_message (item_result net s texts k)"
  obtain r w1 where tb: "translateBatch_loop net ?batch [] w = (r, w1)"
    by (cases "translateBatch_loop net ?batch [] w")
  have len: "length ?batch = min BATCH_SIZE (length texts - a)" by (rule length_slice)
  have kb: "k - a < length ?batch" using k a len by auto
  have ak: "a + (k - a) = k" using a by simp
  have qb: "is_quota (item_result net (sent w) ?batch (k - a))"
    using q by (simp add: s item_result_slice[OF kb] ak)
  have nqb: "\<forall>j<k - a. \<not> is_quota (item_result net (sent w) ?batch j)"
  proof (intro allI impI)
    fix j assume j: "j < k - a"
    then have "j < length ?batch" using kb by simp
    moreover from j have "a + j < k" by simp
    ultimately show "\<not> is_quota (item_result net (sent w) ?batch j)"
      using nq by (simp add: s item_result_slice)
  qed
  from translateBatch_loop_quota[OF kb qb nqb tb]
  have r: "r = Inl ?msg" and s1: "sent w1 = s + Suc k"
    using a by (simp_all add: s item_result_slice[OF kb] ak)
  from translateBatch_loop_frame[OF tb]
  have fr: "progress_values (events w1) = progress_values (events w)"
    "data_values (events w1) = data_values (events w)"
    by simp_all
  have al: "a < length texts" using a k by simp
  have "upload_loop net texts a td w = (td, setError ?msg w1)"
    using upload_loop_quota[OF al, of net w ?msg w1 td] tb r by (simp add: translateBatch_def)
  then show ?thesis using s1 fr by (simp add: setError_def)
qed

lemma upload_loop_aborts:
  assumes k: "k < length texts"
    and q: "is_quota (item_result net s texts k)"
    and nq: "\<forall>j<k. \<not> is_quota (item_result net s texts j)"
  shows "BATCH_SIZE * b \<le> k \<Longrightarrow> sent w = s + BATCH_SIZE * b \<Longrightarrow>
     \<exists>w'. upload_loop net texts (BATCH_SIZE * b) (take (BATCH_SIZE * b) (expected_pairs net s texts)) w
             = (take (BATCH_SIZE * (k div BATCH_SIZE)) (expected_pairs net s texts), w')
        \<and> sent w' = s + Suc k \<and> error w' = failure_message (item_result net s texts k)
        \<and> progress_values (events w') = progress_values (events w)
              @ map (batch_progress (length texts)) [b..<k div BATCH_SIZE]
        \<and> data_values (events w') = data_values (events w)
              @ map (\<lambda>c. take (BATCH_SIZE * Suc c) (expected_pairs net s texts)) [b..<k div BATCH_SIZE]"
proof (induction "k - BATCH_SIZE * b" arbitrary: b w rule: less_induct)
  case less
  let ?E = "expected_pairs net s texts"
  let ?n = "length texts"
  show ?case
  proof (cases "k < BATCH_SIZE * b + BATCH_SIZE")
    case True
    with less.prems(1) have kd: "k div BATCH_SIZE = b"
      by (simp add: BATCH_SIZE_def)
    from upload_step_quota[OF k q nq less.prems(1) True less.prems(2)]
    show ?thesis by (simp add: kd)
  next
    case False
    then have bk: "BATCH_SIZE * Suc b \<le> k" by simp
    then have bd: "b < k div BATCH_SIZE" by (simp add: BATCH_SIZE_def)
    have bn: "BATCH_SIZE * b < ?n" using less.prems(1) k by simp
    have nqb: "\<forall>j. BATCH_SIZE * b \<le> j \<and> j < BATCH_SIZE * b + BATCH_SIZE \<and> j < ?n
        \<longrightarrow> \<not> is_quota (item_result net s texts j)" using nq False by simp
    have eq: "BATCH_SIZE * b + BATCH_SIZE = BATCH_SIZE * Suc b" by simp
    from upload_step_complete[OF bn nqb less.prems(2), unfolded eq code_progress_is_batch_progress[OF bn]]
    obtain w2 where
      st: "upload_loop net texts (BATCH_SIZE * b) (take (BATCH_SIZE * b) ?E) w
             = upload_loop net texts (BATCH_SIZE * Suc b) (take (BATCH_SIZE * Suc b) ?E) w2"
      and s2: "sent w2 = s + min (BATCH_SIZE * Suc b) ?n"
      and p2: "progress_values (events w2) = progress_values (events w) @ [batch_progress ?n b]"
      and d2: "data_values (events w2) = data_values (events w) @ [take (BATCH_SIZE * Suc b) ?E]"
      by blast
    from s2 bk k have s2': "sent w2 = s + BATCH_SIZE * Suc b" by (simp add: min_def)
    have "k - BATCH_SIZE * Suc b < k - BATCH_SIZE * b"
      using bk by (simp add: BATCH_SIZE_def)
    from less.hyps[OF this bk s2'] obtain w' where
      r: "upload_loop net texts (BATCH_SIZE * Suc b) (take (BATCH_SIZE * Suc b) ?E) w2
            = (take (BATCH_SIZE * (k div BATCH_SIZE)) ?E, w')"
      and s': "sent w' = s + Suc k" and e': "error w' = failure_message (item_result net s texts k)"
      and p': "progress_values (events w') = progress_values (events w2)
              @ map (batch_progress ?n) [Suc b..<k div BATCH_SIZE]"
      and d': "data_values (events w') = data_values (events w2)
              @ map (\<lambda>c. take (BATCH_SIZE * Suc c) ?E) [Suc b..<k div BATCH_SIZE]"
      by blast
    have "upload_loop net texts (BATCH_SIZE * b) (take (BATCH_SIZE * b) ?E) w
            = (take (BATCH_SIZE * (k div BATCH_SIZE)) ?E, w')"
      using st r by simp
    moreover have "progress_values (events w') = progress_values (events w)
              @ map (batch_progress ?n) [b..<k div BATCH_SIZE]"
      using p' p2 bd by (simp add: upt_conv_Cons)
    moreover have "data_values (events w') = data_values (events w)
              @ map (\<lambda>c. take (BATCH_SIZE * Suc c) ?E) [b..<k div BATCH_SIZE]"
      using d' d2 bd by (simp add: upt_conv_Cons)
    ultimately show ?thesis using s' e' by blast
  qed
qed

section \<open>Whole runs\<close>

lemma take_attempted:
  "take (attempted (length texts) c) (expected_pairs net s texts)
     = take (BATCH_SIZE * Suc c) (expected_pairs net s texts)"
  by (simp add: attempted_def min_def length_expected_pairs)

lemma loop_complete_from_start:
  assumes "\<forall>j<length texts. \<not> is_quota (item_result net (sent w) texts j)"
  shows "\<exists>w'. upload_loop net texts 0 [] w = (expected_pairs net (sent w) texts, w')
        \<and> sent w' = sent w + length texts \<and> error w' = error w
        \<and> progress_values (events w') = progress_values (events w)
              @ map (batch_progress (length texts)) [0..<batch_count (length texts)]
        \<and> data_values (events w') = data_values (events w)
              @ map (\<lambda>c. take (attempted (length texts) c) (expected_pairs net (sent w) texts))
                  [0..<batch_count (length texts)]"
  using upload_loop_complete[OF assms, of w 0] by (simp add: take_attempted)

lemma loop_aborts_from_start:
  assumes "k < length texts" and "is_quota (item_result net (sent w) texts k)"
    and "\<forall>j<k. \<not> is_quota (item_result net (sent w) texts j)"
  shows "\<exists>w'. upload_loop net texts 0 [] w
             = (take (BATCH_SIZE * (k div BATCH_SIZE)) (expected_pairs net (sent w) texts), w')
        \<and> sent w' = sent w + Suc k
        \<and> error w' = failure_message (item_result net (sent w) texts k)
        \<and> progress_values (events w') = progress_values (events w)
              @ map (batch_progress (length texts)) [0..<k div BATCH_SIZE]
        \<and> data_values (events w') = data_values (events w)
              @ map (\<lambda>c. take (attempted (length texts) c) (expected_pairs net (sent w) texts))
                  [0..<k div BATCH_SIZE]"
  using upload_loop_aborts[OF assms, of 0 w] by (simp add: take_attempted)

lemma handleFileUpload_fields:
  assumes "sheet_rows file = Some rows"
    and "upload_loop net (textsToTranslate_of rows) 0 [] (run_start file w) = (td, w')"
  shows "data (handleFileUpload net (Some file) w) = td"
    and "sent (handleFileUpload net (Some file) w) = sent w'"
    and "error (handleFileUpload net (Some file) w) = error w'"
proof -
  have "data w' = td"
    using upload_loop_data[OF assms(2)] by (simp add: run_start_fields)
  then show "data (handleFileUpload net (Some file) w) = td"
    by (simp add: handleFileUpload_run[OF assms] setProgress_def setLoading_def setData_def)
  show "sent (handleFileUpload net (Some file) w) = sent w'"
    by (simp add: handleFileUpload_run[OF assms] setProgress_def setLoading_def setData_def)
  show "error (handleFileUpload net (Some file) w) = error w'"
    by (simp add: handleFileUpload_run[OF assms] setProgress_def setLoading_def setData_def)
qed


lemma run_aborts:
  assumes rows: "sheet_rows file = Some rows"
    and k: "k < length (textsToTranslate_of rows)"
    and q: "is_quota (item_result net (sent w) (textsToTranslate_of rows) k)"
    and nq: "\<forall>j<k. \<not> is_quota (item_result net (sent w) (textsToTranslate_of rows) j)"
  shows "data (handleFileUpload net (Some file) w)
           = take (BATCH_SIZE * (k div BATCH_SIZE)) (expected_pairs net (sent w) (textsToTranslate_of rows))"
    and "sent (handleFileUpload net (Some file) w) = sent w + Suc k"
    and "error (handleFileUpload net (Some file) w)
           = failure_message (item_result net (sent w) (textsToTranslate_of rows) k)"
proof -
  let ?w0 = "run_start file w"
  have s0: "sent ?w0 = sent w" by (simp add: run_start_fields)
  from loop_aborts_from_start[of k "textsToTranslate_of rows" net ?w0, unfolded s0, OF k q nq]
  obtain w' where
    run: "upload_loop net (textsToTranslate_of rows) 0 [] ?w0
            = (take (BATCH_SIZE * (k div BATCH_SIZE)) (expected_pairs net (sent w) (textsToTranslate_of rows)), w')"
    and s: "sent w' = sent w + Suc k"
    and e: "error w' = failure_message (item_result net (sent w) (textsToTranslate_of rows) k)"
    by blast
  from handleFileUpload_fields[OF rows run] s e
  show "data (handleFileUpload net (Some file) w)
           = take (BATCH_SIZE * (k div BATCH_SIZE)) (expected_pairs net (sent w) (textsToTranslate_of rows))"
    and "sent (handleFileUpload net (Some file) w) = sent w + Suc k"
    and "error (handleFileUpload net (Some file) w)
           = failure_message (item_result net (sent w) (textsToTranslate_of rows) k)"
    by simp_all
qed

lemma is_quota_failure_message: "is_quota r \<Longrightarrow> str_includes (failure_message r) ''quota''"
  by (cases r) (simp_all add: is_quota_def failure_message_def)


lemma texts_of_sheet: "textsToTranslate_of (replicate n [Some ''x'']) = replicate n ''x''"
  by (simp add: textsToTranslate_of_def row0_def truthy_def cell_text_def)

lemma item_result_replies_ok: "item_result replies_ok s texts j = Inr ''ok''"
  by (simp add: item_result_def replies_ok_def translateText_result_def translateText_try_def)

lemma item_result_fails_at:
  "item_result (fails_at k e) 0 texts j
     = (if j = k then translateText_result (Rejected e) else Inr ''ok'')"
  by (simp add: item_result_def fails_at_def translateText_result_def translateText_try_def)

lemma result_http_429: "translateText_result (Rejected (http_error 429)) = Inl QUOTA_MESSAGE"
  by (simp add: http_error_def translateText_result_def translateText_try_def
        translateText_catch_def response_status_is_def)


lemma is_quota_simps:
  "is_quota (Inl QUOTA_MESSAGE)" "\<not> is_quota (Inl INVALID_KEY_MESSAGE)" "\<not> is_quota (Inr t)"
  by (simp_all add: is_quota_def str_includes_QUOTA_MESSAGE not_includes_INVALID_KEY_MESSAGE)



text \<open>
  Claim C1, as stated, expects two pairs when the third of ten items fails with status 429;
  the run returns no pair.
\<close>

theorem quota_item_3_of_10_counterexample:
  "length (data (handleFileUpload (fails_at 2 (http_error 429)) (Some (sheet_of 10)) idle)) \<noteq> 2"
proof -
  have a: "sheet_rows (sheet_of 10) = Some (replicate 10 [Some ''x''])"
    by (simp add: sheet_of_def)
  have s: "sent idle = 0" by (simp add: idle_def)
  have "data (handleFileUpload (fails_at 2 (http_error 429)) (Some (sheet_of 10)) idle)
          = take (BATCH_SIZE * (2 div BATCH_SIZE))
              (expected_pairs (fails_at 2 (http_error 429)) (sent idle)
                 (textsToTranslate_of (replicate 10 [Some ''x''])))"
    by (rule run_aborts(1)[OF a])
       (simp_all add: s texts_of_sheet item_result_fails_at result_http_429 is_quota_simps)
  then show ?thesis by (simp add: BATCH_SIZE_def)
qed

text \<open>
  Claim C1, amended. When item \<open>k\<close> (counted from 0) is the first to fail with a quota
  error, the run sends no request after that of item \<open>k\<close>, the error message of the
  component is the message of that error, which includes \<^verbatim>\<open>quota\<close>, and the pair sequence
  holds the pairs of the batches completed before, in order: the pairs of the first
  \<open>BATCH_SIZE * (k div BATCH_SIZE)\<close> items.
\<close>

theorem quota_stops_run:
  assumes "sheet_rows file = Some rows"
    and "k < length (textsToTranslate_of rows)"
    and "is_quota (item_result net (sent w) (textsToTranslate_of rows) k)"
    and "\<forall>j<k. \<not> is_quota (item_result net (sent w) (textsToTranslate_of rows) j)"
  shows "sent (handleFileUpload net (Some file) w) = sent w + Suc k
       \<and> error (handleFileUpload net (Some file) w)
           = failure_message (item_result net (sent w) (textsToTranslate_of rows) k)
       \<and> str_includes (error (handleFileUpload net (Some file) w)) ''quota''
       \<and> data (handleFileUpload net (Some file) w)
           = take (BATCH_SIZE * (k div BATCH_SIZE))
               (expected_pairs net (sent w) (textsToTranslate_of rows))"
  using run_aborts[OF assms] is_quota_failure_message[OF assms(3)] by simp

text \<open>Ten source strings, the third of which fails with status 429: three requests, the
  quota message, no pair.\<close>

theorem quota_stops_run_witness:
  "sheet_rows (sheet_of 10) = Some (replicate 10 [Some ''x''])
   \<and> 2 < length (textsToTranslate_of (replicate 10 [Some ''x'']))
   \<and> is_quota (item_result (fails_at 2 (http_error 429)) (sent idle)
                 (textsToTranslate_of (replicate 10 [Some ''x''])) 2)
   \<and> item_result (fails_at 2 (http_error 429)) (sent idle)
         (textsToTranslate_of (replicate 10 [Some ''x''])) 0 = Inr ''ok''
   \<and> item_result (fails_at 2 (http_error 429)) (sent idle)
         (textsToTranslate_of (replicate 10 [Some ''x''])) 1 = Inr ''ok''
   \<and> sent (handleFileUpload (fails_at 2 (http_error 429)) (Some (sheet_of 10)) idle) = 3
   \<and> error (handleFileUpload (fails_at 2 (http_error 429)) (Some (sheet_of 10)) idle) = QUOTA_MESSAGE
   \<and> data (handleFileUpload (fails_at 2 (http_error 429)) (Some (sheet_of 10)) idle) = []"
proof -
  have a: "sheet_rows (sheet_of 10) = Some (replicate 10 [Some ''x''])"
    by (simp add: sheet_of_def)
  have s: "sent idle = 0" by (simp add: idle_def)
  have b: "2 < length (textsToTranslate_of (replicate 10 [Some ''x'']))"
    by (simp add: texts_of_sheet)
  have c: "is_quota (item_result (fails_at 2 (http_error 429)) (sent idle)
                 (textsToTranslate_of (replicate 10 [Some ''x''])) 2)"
    by (simp add: s item_result_fails_at result_http_429 is_quota_simps)
  have d: "\<forall>j<2. \<not> is_quota (item_result (fails_at 2 (http_error 429)) (sent idle)
                 (textsToTranslate_of (replicate 10 [Some ''x''])) j)"
    by (simp add: s item_result_fails_at is_quota_simps)
  show ?thesis
    using a b c d quota_stops_run[of "sheet_of 10" "replicate 10 [Some ''x'']" 2
        "fails_at 2 (http_error 429)" idle]
    by (simp add: s item_result_fails_at result_http_429 failure_message_def BATCH_SIZE_def)
qed

text \<open>
  Claim C10. When item \<open>k\<close> (counted from 0) is the first to fail with a quota error, the
  length of the pair sequence after the run is \<open>BATCH_SIZE * (k div BATCH_SIZE)\<close>, a
  multiple of the batch size: the \<open>k mod BATCH_SIZE\<close> items translated before item \<open>k\<close>
  in its batch are not in the sequence.
\<close>

theorem quota_abort_keeps_whole_batches:
  assumes "sheet_rows file = Some rows"
    and "k < length (textsToTranslate_of rows)"
    and "is_quota (item_result net (sent w) (textsToTranslate_of rows) k)"
    and "\<forall>j<k. \<not> is_quota (item_result net (sent w) (textsToTranslate_of rows) j)"
  shows "BATCH_SIZE dvd length (data (handleFileUpload net (Some file) w))
       \<and> length (data (handleFileUpload net (Some file) w)) = BATCH_SIZE * (k div BATCH_SIZE)
       \<and> length (data (handleFileUpload net (Some file) w)) + k mod BATCH_SIZE = k"
proof -
  have "BATCH_SIZE * (k div BATCH_SIZE) \<le> k" by simp
  with assms(2) have "BATCH_SIZE * (k div BATCH_SIZE) \<le> length (textsToTranslate_of rows)"
    by linarith
  then have "length (data (handleFileUpload net (Some file) w)) = BATCH_SIZE * (k div BATCH_SIZE)"
    by (simp add: run_aborts(1)[OF assms] length_expected_pairs)
  then show ?thesis by simp
qed

text \<open>Twenty-five source strings, the fourteenth of which fails with status 429: the ten
  pairs of the first batch are kept, the three translations of the second are not.\<close>

theorem quota_abort_keeps_whole_batches_witness:
  "sheet_rows (sheet_of 25) = Some (replicate 25 [Some ''x''])
   \<and> 13 < length (textsToTranslate_of (replicate 25 [Some ''x'']))
   \<and> is_quota (item_result (fails_at 13 (http_error 429)) (sent idle)
                 (textsToTranslate_of (replicate 25 [Some ''x''])) 13)
   \<and> BATCH_SIZE dvd length (data (handleFileUpload (fails_at 13 (http_error 429)) (Some (sheet_of 25)) idle))
   \<and> length (data (handleFileUpload (fails_at 13 (http_error 429)) (Some (sheet_of 25)) idle)) = 10"
proof -
  have a: "sheet_rows (sheet_of 25) = Some (replicate 25 [Some ''x''])"
    by (simp add: sheet_of_def)
  have s: "sent idle = 0" by (simp add: idle_def)
  have b: "13 < length (textsToTranslate_of (replicate 25 [Some ''x'']))"
    by (simp add: texts_of_sheet)
  have c: "is_quota (item_result (fails_at 13 (http_error 429)) (sent idle)
                 (textsToTranslate_of (replicate 25 [Some ''x''])) 13)"
    by (simp add: s item_result_fails_at result_http_429 is_quota_simps)
  have d: "\<forall>j<13. \<not> is_quota (item_result (fails_at 13 (http_error 429)) (sent idle)
                 (textsToTranslate_of (replicate 25 [Some ''x''])) j)"
    by (simp add: s item_result_fails_at is_quota_simps)
  show ?thesis
    using a b c d quota_abort_keeps_whole_batches[of "sheet_of 25" "replicate 25 [Some ''x'']" 13
        "fails_at 13 (http_error 429)" idle]
    by (simp add: BATCH_SIZE_def)
qed


lemma new_progress_append:
  "progress_values (events w') = progress_values (events w) @ P \<Longrightarrow> new_progress w w' = P"
  by (simp add: new_progress_def)

lemma new_data_append:
  "data_values (events w') = data_values (events w) @ D \<Longrightarrow> new_data w w' = D"
  by (simp add: new_data_def)

text \<open>
  Claim C3. The batch loop of \<^verbatim>\<open>handleFileUpload\<close> emits, for each batch it completes and
  in order, the progress \<open>min (attempted / total * 100) 100\<close>, computed in doubles, where
  \<open>attempted\<close> counts the items of all batches up to that one, and the pairs of all those
  items. When no item fails
  with a quota error every batch is completed; when item \<open>k\<close> is the first to fail with a
  quota error, the \<open>k div BATCH_SIZE\<close> batches before its batch are.
\<close>

theorem batch_emissions:
  "((\<forall>j<length texts. \<not> is_quota (item_result net (sent w) texts j)) \<longrightarrow>
      new_progress w (snd (upload_loop net texts 0 [] w))
        = map (batch_progress (length texts)) [0..<batch_count (length texts)]
      \<and> new_data w (snd (upload_loop net texts 0 [] w))
        = map (\<lambda>c. take (attempted (length texts) c) (expected_pairs net (sent w) texts))
            [0..<batch_count (length texts)])
   \<and> (k < length texts \<and> is_quota (item_result net (sent w) texts k)
        \<and> (\<forall>j<k. \<not> is_quota (item_result net (sent w) texts j)) \<longrightarrow>
      new_progress w (snd (upload_loop net texts 0 [] w))
        = map (batch_progress (length texts)) [0..<k div BATCH_SIZE]
      \<and> new_data w (snd (upload_loop net texts 0 [] w))
        = map (\<lambda>c. take (attempted (length texts) c) (expected_pairs net (sent w) texts))
            [0..<k div BATCH_SIZE])"
proof (intro conjI impI)
  assume nq: "\<forall>j<length texts. \<not> is_quota (item_result net (sent w) texts j)"
  from loop_complete_from_start[OF nq] obtain w' where
    "upload_loop net texts 0 [] w = (expected_pairs net (sent w) texts, w')"
    "progress_values (events w') = progress_values (events w)
       @ map (batch_progress (length texts)) [0..<batch_count (length texts)]"
    "data_values (events w') = data_values (events w)
       @ map (\<lambda>c. take (attempted (length texts) c) (expected_pairs net (sent w) texts))
           [0..<batch_count (length texts)]"
    by blast
  then show "new_progress w (snd (upload_loop net texts 0 [] w))
        = map (batch_progress (length texts)) [0..<batch_count (length texts)]"
    and "new_data w (snd (upload_loop net texts 0 [] w))
        = map (\<lambda>c. take (attempted (length texts) c) (expected_pairs net (sent w) texts))
            [0..<batch_count (length texts)]"
    by (simp_all add: new_progress_append new_data_append)
next
  assume h: "k < length texts \<and> is_quota (item_result net (sent w) texts k)
        \<and> (\<forall>j<k. \<not> is_quota (item_result net (sent w) texts j))"
  then have k: "k < length texts" and q: "is_quota (item_result net (sent w) texts k)"
    and nq: "\<forall>j<k. \<not> is_quota (item_result net (sent w) texts j)"
    by simp_all
  from loop_aborts_from_start[OF k q nq] obtain w' where
    "upload_loop net texts 0 [] w
       = (take (BATCH_SIZE * (k div BATCH_SIZE)) (expected_pairs net (sent w) texts), w')"
    "progress_values (events w') = progress_values (events w)
       @ map (batch_progress (length texts)) [0..<k div BATCH_SIZE]"
    "data_values (events w') = data_values (events w)
       @ map (\<lambda>c. take (attempted (length texts) c) (expected_pairs net (sent w) texts))
           [0..<k div BATCH_SIZE]"
    by blast
  then show "new_progress w (snd (upload_loop net texts 0 [] w))
        = map (batch_progress (length texts)) [0..<k div BATCH_SIZE]"
    and "new_data w (snd (upload_loop net texts 0 [] w))
        = map (\<lambda>c. take (attempted (length texts) c) (expected_pairs net (sent w) texts))
            [0..<k div BATCH_SIZE]"
    by (simp_all add: new_progress_append new_data_append)
qed

lemma double_div_10_25: "double_div 10 25 = 3602879701896397 / 9007199254740992"
  unfolding double_div_def
  using double_round_near[of "10 / 25" "- 2" 7205759403792794] by simp

lemma double_mul_10_25: "double_mul (3602879701896397 / 9007199254740992) 100 = 40"
  unfolding double_mul_def
  using double_round_near[of "3602879701896397 / 9007199254740992 * 100" 5 5629499534213120] by simp

lemma double_div_20_25: "double_div 20 25 = 3602879701896397 / 4503599627370496"
  unfolding double_div_def
  using double_round_near[of "20 / 25" "- 1" 7205759403792794] by simp

lemma double_mul_20_25: "double_mul (3602879701896397 / 4503599627370496) 100 = 80"
  unfolding double_mul_def
  using double_round_near[of "3602879701896397 / 4503599627370496 * 100" 6 5629499534213120] by simp

lemma double_div_70_125: "double_div 70 125 = 1261007895663739 / 2251799813685248"
  unfolding double_div_def
  using double_round_near[of "70 / 125" "- 1" 5044031582654956] by simp

lemma double_mul_70_125:
  "double_mul (1261007895663739 / 2251799813685248) 100 = 7881299347898369 / 140737488355328"
  unfolding double_mul_def
  using double_round_near[of "1261007895663739 / 2251799813685248 * 100" 5 7881299347898369] by simp

lemma batch_progress_25:
  "batch_progress 25 0 = 40" "batch_progress 25 (Suc 0) = 80" "batch_progress 25 2 = 100"
proof -
  have t: "attempted 25 0 = 10" "attempted 25 (Suc 0) = 20" "attempted 25 2 = 25"
    by (simp_all add: attempted_def BATCH_SIZE_def)
  show "batch_progress 25 0 = 40"
    by (simp add: batch_progress_def t double_div_10_25 double_mul_10_25)
  show "batch_progress 25 (Suc 0) = 80"
    by (simp add: batch_progress_def t double_div_20_25 double_mul_20_25)
  have "double_div 25 25 = 1" by (simp add: double_div_def double_round_1)
  then show "batch_progress 25 2 = 100"
    by (simp add: batch_progress_def t double_mul_def double_round_100)
qed

lemma batch_progress_125_6: "batch_progress 125 6 = 7881299347898369 / 140737488355328"
proof -
  have "attempted 125 6 = 70" by (simp add: attempted_def BATCH_SIZE_def)
  then show ?thesis
    by (simp add: batch_progress_def double_div_70_125 double_mul_70_125)
qed

text \<open>Twenty-five source strings: batches of 10, 10 and 5 items with progress 40, 80 and 100
  when every translation succeeds, and one emission when the fourteenth item fails with
  status 429. The progress is the double the source computes: after the seventh batch of
  125 source strings it is \<open>56 + 2 ^ -47\<close>, printed as 56.00000000000001.\<close>

theorem batch_emissions_witness:
  "new_progress idle (snd (upload_loop replies_ok (replicate 25 ''x'') 0 [] idle)) = [40, 80, 100]
   \<and> map length (new_data idle (snd (upload_loop replies_ok (replicate 25 ''x'') 0 [] idle))) = [10, 20, 25]
   \<and> 13 < length (replicate 25 ''x'')
   \<and> is_quota (item_result (fails_at 13 (http_error 429)) (sent idle) (replicate 25 ''x'') 13)
   \<and> new_progress idle (snd (upload_loop (fails_at 13 (http_error 429)) (replicate 25 ''x'') 0 [] idle)) = [40]
   \<and> map length (new_data idle (snd (upload_loop (fails_at 13 (http_error 429)) (replicate 25 ''x'') 0 [] idle))) = [10]
   \<and> new_progress idle (snd (upload_loop replies_ok (replicate 125 ''x'') 0 [] idle)) ! 6
       = 7881299347898369 / 140737488355328"
proof -
  have s: "sent idle = 0" by (simp add: idle_def)
  have a: "\<forall>j<length (replicate 25 ''x''). \<not> is_quota (item_result replies_ok (sent idle) (replicate 25 ''x'') j)"
    by (simp add: item_result_replies_ok is_quota_simps)
  have b: "13 < length (replicate 25 ''x'')" by simp
  have c: "is_quota (item_result (fails_at 13 (http_error 429)) (sent idle) (replicate 25 ''x'') 13)"
    by (simp add: s item_result_fails_at result_http_429 is_quota_simps)
  have d: "\<forall>j<13. \<not> is_quota (item_result (fails_at 13 (http_error 429)) (sent idle) (replicate 25 ''x'') j)"
    by (simp add: s item_result_fails_at is_quota_simps)
  have n: "batch_count 25 = 3" "BATCH_SIZE = 10"
    and t: "attempted 25 0 = 10" "attempted 25 (Suc 0) = 20" "attempted 25 2 = 25"
    by (simp_all add: batch_count_def attempted_def BATCH_SIZE_def)
  note p = batch_progress_25
  have u: "[0..<3] = [0, 1, 2::nat]" by (simp add: upt_conv_Cons)
  from a batch_emissions[of "replicate 25 ''x''" replies_ok idle 0]
  have e1: "new_progress idle (snd (upload_loop replies_ok (replicate 25 ''x'') 0 [] idle)) = [40, 80, 100]"
    and e2: "map length (new_data idle (snd (upload_loop replies_ok (replicate 25 ''x'') 0 [] idle))) = [10, 20, 25]"
    by (simp_all add: n p t u length_expected_pairs)
  from b c d batch_emissions[of "replicate 25 ''x''" "fails_at 13 (http_error 429)" idle 13]
  have e3: "new_progress idle (snd (upload_loop (fails_at 13 (http_error 429)) (replicate 25 ''x'') 0 [] idle)) = [40]"
    and e4: "map length (new_data idle (snd (upload_loop (fails_at 13 (http_error 429)) (replicate 25 ''x'') 0 [] idle))) = [10]"
    by (simp_all add: n p t length_expected_pairs)
  have a': "\<forall>j<length (replicate 125 ''x''). \<not> is_quota (item_result replies_ok (sent idle) (replicate 125 ''x'') j)"
    by (simp add: item_result_replies_ok is_quota_simps)
  have "batch_count 125 = 13" by (simp add: batch_count_def BATCH_SIZE_def)
  with a' batch_emissions[of "replicate 125 ''x''" replies_ok idle 0]
  have e5: "new_progress idle (snd (upload_loop replies_ok (replicate 125 ''x'') 0 [] idle)) ! 6
       = 7881299347898369 / 140737488355328"
    by (simp add: batch_progress_125_6)
  from b c e1 e2 e3 e4 e5 show ?thesis by blast
qed

end
